theory Spec2Isabelle
  imports Complex_Main "HOL-Library.AList"
begin

section \<open>JavaScript values and the object store\<close>

text \<open>
  The schema constructor reads a caller-owned JSON object graph, allocates new objects and
  stores references to them. Objects are therefore kept in an explicit store: an address is
  an index into the store, allocation appends a cell, and a JavaScript value is a primitive
  or a reference to a cell. Numbers are only ever copied by this code, never computed with.
\<close>

type_synonym addr = nat

datatype jsval =
    Undefined
  | Null
  | Bool bool
  | Num real
  | Str string
  | Ref addr

type_synonym props = "(string \<times> jsval) list"

text \<open>
  An object has its own enumerable properties, in enumeration order, and the enumerable
  properties it sees through its prototype chain (\<open>inherited\<close>), nearest first. Every
  prototype chain ends in \<open>Object.prototype\<close>, whose members are not enumerable and are
  not listed. Every listed property is a writable data property whose value is a primitive
  or a reference, never a function, as in an object graph parsed from JSON. An own property
  may have any name: \<open>JSON.parse\<close> also makes \<open>__proto__\<close> and \<open>hasOwnProperty\<close>
  own enumerable properties of the object it builds.
\<close>

datatype jsobj = Obj (own: props) (inherited: props)

type_synonym heap = "jsobj list"

datatype error =
    InvalidArgument string  \<comment> \<open>the failure of the argument check, with the parameter's name\<close>
  | TypeError               \<comment> \<open>a property read on \<open>undefined\<close> or \<open>null\<close>, a call of a value that is no function, a refused assignment\<close>
  | RangeError              \<comment> \<open>the call stack is exhausted\<close>
  | Thrown jsval            \<comment> \<open>anything else a callee throws\<close>
  | NoSuchObject            \<comment> \<open>an address outside the store, which no JavaScript value denotes\<close>

definition lookup :: "heap \<Rightarrow> addr \<Rightarrow> jsobj option" where
  "lookup h a = (if a < length h then Some (h ! a) else None)"

definition alloc :: "heap \<Rightarrow> jsobj \<Rightarrow> addr \<times> heap" where
  "alloc h c = (length h, h @ [c])"

section \<open>Property access\<close>

text \<open>
  Property names are plain strings. The decimal name of an index is needed because a string
  primitive has its indices as own enumerable properties.
\<close>

fun dec :: "nat \<Rightarrow> string" where
  "dec n = (if n < 10 then [char_of (48 + n)] else dec (n div 10) @ [char_of (48 + n mod 10)])"

declare dec.simps [simp del]

definition index_keys :: "string \<Rightarrow> string list" where
  "index_keys s = map dec [0..<length s]"

text \<open>\<open>own_keys\<close>: the own enumerable property names of a value, in enumeration order.\<close>

definition own_keys :: "heap \<Rightarrow> jsval \<Rightarrow> string list" where
  "own_keys h v =
     (case v of
        Ref a \<Rightarrow> (case lookup h a of Some c \<Rightarrow> map fst (own c) | None \<Rightarrow> [])
      | Str s \<Rightarrow> index_keys s
      | _ \<Rightarrow> [])"

definition inherited_keys :: "heap \<Rightarrow> jsval \<Rightarrow> string list" where
  "inherited_keys h v =
     (case v of
        Ref a \<Rightarrow> (case lookup h a of Some c \<Rightarrow> map fst (inherited c) | None \<Rightarrow> [])
      | _ \<Rightarrow> [])"

text \<open>
  \<open>for (var k in v)\<close>: nothing for \<open>undefined\<close>, \<open>null\<close>, numbers and booleans; for
  an object its own enumerable names and then the inherited ones that no own name shadows.
\<close>

definition for_in_keys :: "heap \<Rightarrow> jsval \<Rightarrow> string list" where
  "for_in_keys h v =
     own_keys h v @ filter (\<lambda>k. k \<notin> set (own_keys h v)) (inherited_keys h v)"

text \<open>
  \<open>v.hasOwnProperty(k)\<close>. The method is looked up on \<open>v\<close> like any property. When \<open>v\<close>
  has a property named \<open>hasOwnProperty\<close>, own or seen through its prototype chain, that
  property is found before the function of \<open>Object.prototype\<close>; its value is not a
  function, and the call throws a TypeError. Otherwise the function of \<open>Object.prototype\<close>
  answers; a string also owns the non-enumerable \<open>length\<close>.
\<close>

definition has_own_property :: "heap \<Rightarrow> jsval \<Rightarrow> string \<Rightarrow> error + bool" where
  "has_own_property h v k =
     (case v of
        Undefined \<Rightarrow> Inl TypeError
      | Null \<Rightarrow> Inl TypeError
      | Ref a \<Rightarrow> (case lookup h a of
                   Some c \<Rightarrow>
                     if ''hasOwnProperty'' \<in> set (map fst (own c)) \<union> set (map fst (inherited c))
                     then Inl TypeError
                     else Inr (k \<in> set (map fst (own c)))
                 | None \<Rightarrow> Inl NoSuchObject)
      | Str s \<Rightarrow> Inr (k \<in> set (index_keys s) \<or> k = ''length'')
      | _ \<Rightarrow> Inr False)"

text \<open>
  \<open>v[k]\<close> and \<open>v.k\<close>: own property first, then the prototype chain, else \<open>undefined\<close>.
  The constructor reads the names \<open>enums\<close>, \<open>classes\<close>, \<open>name\<close>, \<open>description\<close> and
  \<open>extras\<close>, none of which is a member of \<open>Object.prototype\<close>, and names that it has
  found to be own properties.
\<close>

definition get_prop :: "heap \<Rightarrow> jsval \<Rightarrow> string \<Rightarrow> error + jsval" where
  "get_prop h v k =
     (case v of
        Undefined \<Rightarrow> Inl TypeError
      | Null \<Rightarrow> Inl TypeError
      | Ref a \<Rightarrow> (case lookup h a of
                   None \<Rightarrow> Inl NoSuchObject
                 | Some c \<Rightarrow> (case map_of (own c) k of
                               Some w \<Rightarrow> Inr w
                             | None \<Rightarrow> (case map_of (inherited c) k of
                                          Some w \<Rightarrow> Inr w
                                        | None \<Rightarrow> Inr Undefined)))
      | Str s \<Rightarrow> (case find (\<lambda>i. dec i = k) [0..<length s] of
                   Some i \<Rightarrow> Inr (Str [s ! i])
                 | None \<Rightarrow> if k = ''length'' then Inr (Num (real (length s))) else Inr Undefined)
      | _ \<Rightarrow> Inr Undefined)"

text \<open>
  \<open>o[k] = v\<close> on an object that this code created with \<open>{}\<close>, where \<open>v\<close> is an
  instance that \<open>new\<close> has just allocated. For every name but \<open>__proto__\<close> the assignment
  replaces the value of an existing own property in place, or appends a new own property.
  The name \<open>__proto__\<close> is an accessor of \<open>Object.prototype\<close>: the assignment runs its
  setter, which creates no own property and makes \<open>v\<close> the prototype of \<open>o\<close> when \<open>v\<close>
  is an object (\<open>null\<close> removes the prototype, any other value is ignored). From then on
  \<open>o\<close> sees the enumerable properties of \<open>v\<close> through its prototype chain
  (\<open>visible_props\<close>). An object created with \<open>{}\<close> never has an own property named
  \<open>__proto__\<close>, and the own properties of an instance are those its constructor assigned
  to \<open>this\<close>, so no data property of that name stands before the accessor.
  The prototypes of the instances themselves (\<open>MetadataEnum.prototype\<close>,
  \<open>MetadataClass.prototype\<close>) are not among the sources. Once an instance is the prototype
  of a table, an assignment to the table under the name of a setter-less accessor of the
  instance's prototype would throw instead of adding a property; here the assignment adds
  the property, so the model may go on where the code throws, never the reverse.
\<close>

definition visible_props :: "jsobj \<Rightarrow> props" where
  "visible_props p = own p @ filter (\<lambda>q. fst q \<notin> set (map fst (own p))) (inherited p)"

definition put_prop :: "heap \<Rightarrow> addr \<Rightarrow> string \<Rightarrow> jsval \<Rightarrow> heap" where
  "put_prop h a k v =
     (case lookup h a of
        None \<Rightarrow> h
      | Some c \<Rightarrow>
          if k = ''__proto__'' then
            (case v of
               Ref i \<Rightarrow> (case lookup h i of
                            Some p \<Rightarrow> h[a := Obj (own c) (visible_props p)]
                          | None \<Rightarrow> h)
             | Null \<Rightarrow> h[a := Obj (own c) []]
             | _ \<Rightarrow> h)
          else h[a := Obj (AList.update k v (own c)) (inherited c)])"

section \<open>The imported helpers of MetadataSchema\<close>

text \<open>
  Modelled from the spec: \<open>Check.typeOf.object\<close> of Core/Check.js, which is not among the
  sources. The spec (4.3, 7): the input must be a well-formed object, not null and not a
  primitive; otherwise construction fails with an InvalidArgument condition. The call
  stands between the pragmas of a debug section; the source as written executes it.
\<close>

definition Check_typeOf_object :: "string \<Rightarrow> jsval \<Rightarrow> error + unit" where
  "Check_typeOf_object name test =
     (case test of Ref a \<Rightarrow> Inr () | _ \<Rightarrow> Inl (InvalidArgument name))"

text \<open>
  Modelled from the spec: \<open>clone(object, true)\<close> of Core/clone.js, which is not among the
  sources. The spec (3, 4.3, 9): a deep copy of a payload of arbitrary shape, so that the
  result holds no reference into the caller's input. A primitive is returned as it is; an
  object is copied into a new object whose own properties are the deep copies of the
  original's own properties. \<open>stack\<close> bounds the nesting of the recursion, which a cyclic
  payload exceeds: the call stack is then exhausted.
\<close>

fun clone :: "nat \<Rightarrow> heap \<Rightarrow> jsval \<Rightarrow> error + (jsval \<times> heap)"
  and clone_props :: "nat \<Rightarrow> heap \<Rightarrow> props \<Rightarrow> error + (props \<times> heap)" where
  "clone 0 h (Ref a) = Inl RangeError"
| "clone (Suc stack) h (Ref a) =
     (case lookup h a of
        None \<Rightarrow> Inl NoSuchObject
      | Some c \<Rightarrow>
          (case clone_props stack h (own c) of
             Inl e \<Rightarrow> Inl e
           | Inr (ps, h') \<Rightarrow> (case alloc h' (Obj ps []) of (result, h'') \<Rightarrow> Inr (Ref result, h''))))"
| "clone stack h v = Inr (v, h)"
| "clone_props stack h [] = Inr ([], h)"
| "clone_props stack h ((k, v) # ps) =
     (case clone stack h v of
        Inl e \<Rightarrow> Inl e
      | Inr (v', h') \<Rightarrow>
          (case clone_props stack h' ps of
             Inl e \<Rightarrow> Inl e
           | Inr (ps', h'') \<Rightarrow> Inr ((k, v') # ps', h'')))"

text \<open>
  \<open>MetadataEnum\<close> and \<open>MetadataClass\<close> are imported constructors whose bodies are not
  among the sources: they are parameters of the model. A constructor reads its options
  object and the store, and either throws or yields the own properties of the new
  instance; \<open>new\<close> then allocates the instance. A constructor changes no object that
  exists when it is called; what it builds for the instance is part of the instance.
\<close>

record enum_options =
  eo_id :: string
  eo_enum :: jsval

record class_options =
  co_id :: string
  co_class :: jsval
  co_enums :: jsval

definition new :: "(heap \<Rightarrow> 'o \<Rightarrow> error + props) \<Rightarrow> heap \<Rightarrow> 'o \<Rightarrow> error + (addr \<times> heap)" where
  "new constructor h options =
     (case constructor h options of
        Inl e \<Rightarrow> Inl e
      | Inr ps \<Rightarrow> Inr (alloc h (Obj ps [])))"

section \<open>Scene/MetadataSchema.js\<close>

text \<open>
  The two \<open>for ... in\<close> loops, over the names that \<open>for_in_keys\<close> enumerates. Each
  iteration evaluates \<open>schema.enums\<close> (or \<open>schema.classes\<close>) again, in the current store.
\<close>

fun enum_loop ::
  "(heap \<Rightarrow> enum_options \<Rightarrow> error + props) \<Rightarrow> jsval \<Rightarrow> addr \<Rightarrow> string list \<Rightarrow> heap \<Rightarrow> error + heap" where
  "enum_loop MetadataEnum schema enums [] h = Inr h"
| "enum_loop MetadataEnum schema enums (enumId # rest) h =
     (case get_prop h schema ''enums'' of
        Inl e \<Rightarrow> Inl e
      | Inr schema_enums \<Rightarrow>
          (case has_own_property h schema_enums enumId of
             Inl e \<Rightarrow> Inl e
           | Inr is_own \<Rightarrow>
               if is_own then
                 (case get_prop h schema_enums enumId of
                    Inl e \<Rightarrow> Inl e
                  | Inr d \<Rightarrow>
                      (case new MetadataEnum h \<lparr>eo_id = enumId, eo_enum = d\<rparr> of
                         Inl e \<Rightarrow> Inl e
                       | Inr (inst, h') \<Rightarrow>
                           enum_loop MetadataEnum schema enums rest
                             (put_prop h' enums enumId (Ref inst))))
               else enum_loop MetadataEnum schema enums rest h))"

fun class_loop ::
  "(heap \<Rightarrow> class_options \<Rightarrow> error + props) \<Rightarrow> jsval \<Rightarrow> addr \<Rightarrow> addr \<Rightarrow> string list \<Rightarrow> heap \<Rightarrow> error + heap" where
  "class_loop MetadataClass schema classes enums [] h = Inr h"
| "class_loop MetadataClass schema classes enums (classId # rest) h =
     (case get_prop h schema ''classes'' of
        Inl e \<Rightarrow> Inl e
      | Inr schema_classes \<Rightarrow>
          (case has_own_property h schema_classes classId of
             Inl e \<Rightarrow> Inl e
           | Inr is_own \<Rightarrow>
               if is_own then
                 (case get_prop h schema_classes classId of
                    Inl e \<Rightarrow> Inl e
                  | Inr d \<Rightarrow>
                      (case new MetadataClass h
                              \<lparr>co_id = classId, co_class = d, co_enums = Ref enums\<rparr> of
                         Inl e \<Rightarrow> Inl e
                       | Inr (inst, h') \<Rightarrow>
                           class_loop MetadataClass schema classes enums rest
                             (put_prop h' classes classId (Ref inst))))
               else class_loop MetadataClass schema classes enums rest h))"

text \<open>
  The constructor. It returns the own properties of the new Schema (the five fields it
  assigns to \<open>this\<close>) and the store. When it throws, nothing is returned: every object
  written before the failure was allocated by this call and is unreachable.
  \<open>MetadataSchema_body\<close> is the part after the argument check.
\<close>

definition MetadataSchema_body ::
  "(heap \<Rightarrow> enum_options \<Rightarrow> error + props) \<Rightarrow> (heap \<Rightarrow> class_options \<Rightarrow> error + props) \<Rightarrow>
   nat \<Rightarrow> heap \<Rightarrow> jsval \<Rightarrow> error + (props \<times> heap)" where
  "MetadataSchema_body MetadataEnum MetadataClass stack h schema =
     (case alloc h (Obj [] []) of (enums, h1) \<Rightarrow>
     (case get_prop h1 schema ''enums'' of
        Inl e \<Rightarrow> Inl e
      | Inr schema_enums \<Rightarrow>
     (case enum_loop MetadataEnum schema enums (for_in_keys h1 schema_enums) h1 of
        Inl e \<Rightarrow> Inl e
      | Inr h2 \<Rightarrow>
     (case alloc h2 (Obj [] []) of (classes, h3) \<Rightarrow>
     (case get_prop h3 schema ''classes'' of
        Inl e \<Rightarrow> Inl e
      | Inr schema_classes \<Rightarrow>
     (case class_loop MetadataClass schema classes enums (for_in_keys h3 schema_classes) h3 of
        Inl e \<Rightarrow> Inl e
      | Inr h4 \<Rightarrow>
     (case get_prop h4 schema ''name'' of
        Inl e \<Rightarrow> Inl e
      | Inr schema_name \<Rightarrow>
     (case get_prop h4 schema ''description'' of
        Inl e \<Rightarrow> Inl e
      | Inr schema_description \<Rightarrow>
     (case get_prop h4 schema ''extras'' of
        Inl e \<Rightarrow> Inl e
      | Inr schema_extras \<Rightarrow>
     (case clone stack h4 schema_extras of
        Inl e \<Rightarrow> Inl e
      | Inr (extras_copy, h5) \<Rightarrow>
          Inr ([(''_classes'', Ref classes),
                (''_enums'', Ref enums),
                (''_name'', schema_name),
                (''_description'', schema_description),
                (''_extras'', extras_copy)], h5)))))))))))"

definition MetadataSchema ::
  "(heap \<Rightarrow> enum_options \<Rightarrow> error + props) \<Rightarrow> (heap \<Rightarrow> class_options \<Rightarrow> error + props) \<Rightarrow>
   nat \<Rightarrow> heap \<Rightarrow> jsval \<Rightarrow> error + (props \<times> heap)" where
  "MetadataSchema MetadataEnum MetadataClass stack h schema =
     (case Check_typeOf_object ''schema'' schema of
        Inl e \<Rightarrow> Inl e
      | Inr _ \<Rightarrow> MetadataSchema_body MetadataEnum MetadataClass stack h schema)"

text \<open>
  \<open>Object.defineProperties(MetadataSchema.prototype, ...)\<close>: five accessor properties,
  each with a \<open>get\<close> function that returns one underscore field of \<open>this\<close>, and no
  \<open>set\<close> function.
\<close>

definition field :: "props \<Rightarrow> string \<Rightarrow> jsval" where
  "field this k = (case map_of this k of Some v \<Rightarrow> v | None \<Rightarrow> Undefined)"

definition classes :: "props \<Rightarrow> jsval" where
  "classes this = field this ''_classes''"

definition enums :: "props \<Rightarrow> jsval" where
  "enums this = field this ''_enums''"

definition name :: "props \<Rightarrow> jsval" where
  "name this = field this ''_name''"

definition description :: "props \<Rightarrow> jsval" where
  "description this = field this ''_description''"

definition extras :: "props \<Rightarrow> jsval" where
  "extras this = field this ''_extras''"

record descriptor =
  getter :: "(props \<Rightarrow> jsval) option"
  setter :: "(props \<Rightarrow> jsval \<Rightarrow> props) option"

definition MetadataSchema_prototype :: "(string \<times> descriptor) list" where
  "MetadataSchema_prototype =
     [(''classes'', \<lparr>getter = Some classes, setter = None\<rparr>),
      (''enums'', \<lparr>getter = Some enums, setter = None\<rparr>),
      (''name'', \<lparr>getter = Some name, setter = None\<rparr>),
      (''description'', \<lparr>getter = Some description, setter = None\<rparr>),
      (''extras'', \<lparr>getter = Some extras, setter = None\<rparr>)]"

text \<open>
  The object that \<open>new MetadataSchema(schema)\<close> evaluates to: the own properties that the
  constructor assigned to \<open>this\<close>, and its prototype, which is \<open>MetadataSchema.prototype\<close>
  until an assignment to \<open>__proto__\<close> replaces it by \<open>null\<close> or by an object of the store.
\<close>

datatype prototype = Schema_prototype | Replaced jsval

record schema_object =
  own_props :: props
  proto :: prototype

definition new_schema_object :: "props \<Rightarrow> schema_object" where
  "new_schema_object this = \<lparr>own_props = this, proto = Schema_prototype\<rparr>"

text \<open>
  What reading a member of a Schema yields: a value of the store, a function (named by the
  member of \<open>Object.prototype\<close> that holds it, or \<open>MetadataSchema\<close> and \<open>Object\<close> for
  the two constructors), or the object \<open>MetadataSchema.prototype\<close> itself.
  \<open>Object.prototype\<close> has the data properties \<open>constructor\<close> and
  \<open>Object_prototype_functions\<close>, all writable, and the accessor \<open>__proto__\<close>, whose getter
  returns the prototype of the object it is read on.
\<close>

datatype member = Value jsval | Function string | Schema_prototype_object

definition Object_prototype_functions :: "string list" where
  "Object_prototype_functions =
     [''__defineGetter__'', ''__defineSetter__'', ''__lookupGetter__'', ''__lookupSetter__'',
      ''hasOwnProperty'', ''isPrototypeOf'', ''propertyIsEnumerable'', ''toLocaleString'',
      ''toString'', ''valueOf'']"

definition Object_prototype_member :: "member \<Rightarrow> string \<Rightarrow> member" where
  "Object_prototype_member prototype_of_receiver k =
     (if k = ''__proto__'' then prototype_of_receiver
      else if k = ''constructor'' then Function ''Object''
      else if k \<in> set Object_prototype_functions then Function k
      else Value Undefined)"

text \<open>
  \<open>s.k\<close> for a Schema \<open>s\<close>, as JavaScript resolves it: an own property first, then the
  prototype chain. \<open>MetadataSchema.prototype\<close> holds the five accessors and
  \<open>constructor\<close>, and is followed by \<open>Object.prototype\<close>. After the prototype has been
  replaced by an object of the store, that object's properties and \<open>Object.prototype\<close>
  follow instead; after it has been replaced by \<open>null\<close>, nothing follows.
\<close>

definition get_member :: "heap \<Rightarrow> schema_object \<Rightarrow> string \<Rightarrow> member" where
  "get_member h s k =
     (case map_of (own_props s) k of
        Some v \<Rightarrow> Value v
      | None \<Rightarrow>
          (case proto s of
             Schema_prototype \<Rightarrow>
               (case map_of MetadataSchema_prototype k of
                  Some d \<Rightarrow> (case getter d of
                              Some g \<Rightarrow> Value (g (own_props s))
                            | None \<Rightarrow> Value Undefined)
                | None \<Rightarrow>
                    if k = ''constructor'' then Function ''MetadataSchema''
                    else Object_prototype_member Schema_prototype_object k)
           | Replaced p \<Rightarrow>
               (case p of
                  Ref a \<Rightarrow>
                    (case lookup h a of
                       None \<Rightarrow> Value Undefined
                     | Some c \<Rightarrow>
                         (case map_of (own c) k of
                            Some v \<Rightarrow> Value v
                          | None \<Rightarrow>
                              (case map_of (inherited c) k of
                                 Some v \<Rightarrow> Value v
                               | None \<Rightarrow> Object_prototype_member (Value p) k)))
                | _ \<Rightarrow> Value Undefined)))"

text \<open>
  \<open>s.k = v\<close> for a Schema \<open>s\<close>. The first property named \<open>k\<close> on the way from \<open>s\<close>
  through its prototype chain decides. An own property of \<open>s\<close> is overwritten. An
  accessor runs its \<open>set\<close> function; when it has none, as the five accessors of
  \<open>MetadataSchema.prototype\<close>, nothing is changed, and a TypeError is thrown if the
  assigning code is strict code (\<open>strict\<close>; the assignment is made by the caller's code,
  not by this module). The setter of \<open>__proto__\<close> replaces the prototype when \<open>v\<close> is
  \<open>null\<close> or an object and ignores every other value. In every other case (a writable
  data property of a prototype, or no property at all) \<open>s\<close> gets a new own property.
\<close>

definition set_prototype :: "schema_object \<Rightarrow> jsval \<Rightarrow> schema_object" where
  "set_prototype s v =
     (case v of
        Null \<Rightarrow> s\<lparr>proto := Replaced Null\<rparr>
      | Ref a \<Rightarrow> s\<lparr>proto := Replaced (Ref a)\<rparr>
      | _ \<Rightarrow> s)"

definition reaches_proto_accessor :: "heap \<Rightarrow> jsval \<Rightarrow> bool" where
  "reaches_proto_accessor h p =
     (case p of
        Ref a \<Rightarrow> (case lookup h a of
                   Some c \<Rightarrow> ''__proto__'' \<notin> set (map fst (own c)) \<union> set (map fst (inherited c))
                 | None \<Rightarrow> False)
      | _ \<Rightarrow> False)"

definition set_member :: "bool \<Rightarrow> heap \<Rightarrow> schema_object \<Rightarrow> string \<Rightarrow> jsval \<Rightarrow> error + schema_object" where
  "set_member strict h s k v =
     (case map_of (own_props s) k of
        Some _ \<Rightarrow> Inr (s\<lparr>own_props := AList.update k v (own_props s)\<rparr>)
      | None \<Rightarrow>
          (case proto s of
             Schema_prototype \<Rightarrow>
               (case map_of MetadataSchema_prototype k of
                  Some d \<Rightarrow> (case setter d of
                              Some f \<Rightarrow> Inr (s\<lparr>own_props := f (own_props s) v\<rparr>)
                            | None \<Rightarrow> if strict then Inl TypeError else Inr s)
                | None \<Rightarrow>
                    if k = ''__proto__'' then Inr (set_prototype s v)
                    else Inr (s\<lparr>own_props := AList.update k v (own_props s)\<rparr>))
           | Replaced p \<Rightarrow>
               if k = ''__proto__'' \<and> reaches_proto_accessor h p then Inr (set_prototype s v)
               else Inr (s\<lparr>own_props := AList.update k v (own_props s)\<rparr>)))"

section \<open>Notions used to state the properties\<close>

text \<open>
  What a reader sees through a value: a primitive, or the tree of own properties below an
  object, read down to a given depth.
\<close>

datatype tree = Leaf jsval | Node "(string \<times> tree) list" | Deeper

primrec observe :: "nat \<Rightarrow> heap \<Rightarrow> jsval \<Rightarrow> tree" where
  "observe 0 h v = (case v of Ref a \<Rightarrow> Deeper | _ \<Rightarrow> Leaf v)"
| "observe (Suc d) h v =
     (case v of
        Ref a \<Rightarrow> (case lookup h a of
                   None \<Rightarrow> Leaf v
                 | Some c \<Rightarrow> Node (map (\<lambda>p. (fst p, observe d h (snd p))) (own c)))
      | _ \<Rightarrow> Leaf v)"

text \<open>
  A store is closed when every reference held in it points into it, as in any JavaScript
  heap. \<open>keeps h0 h\<close>: the store \<open>h\<close> still has every object of \<open>h0\<close>, unchanged, at its
  address.
\<close>

definition in_store :: "heap \<Rightarrow> jsval \<Rightarrow> bool" where
  "in_store h v = (case v of Ref a \<Rightarrow> a < length h | _ \<Rightarrow> True)"

definition closed_store :: "heap \<Rightarrow> bool" where
  "closed_store h = list_all (\<lambda>c. list_all (\<lambda>p. in_store h (snd p)) (own c @ inherited c)) h"

definition keeps :: "heap \<Rightarrow> heap \<Rightarrow> bool" where
  "keeps h0 h = (take (length h0) h = h0)"

text \<open>
  \<open>same_above lo h h2\<close>: the store \<open>h2\<close> has every object of \<open>h\<close> from address \<open>lo\<close>
  on, unchanged; the objects below \<open>lo\<close> may have been changed in any way.
\<close>

definition same_above :: "nat \<Rightarrow> heap \<Rightarrow> heap \<Rightarrow> bool" where
  "same_above lo h h2 \<longleftrightarrow>
     length h \<le> length h2 \<and> (\<forall>a. lo \<le> a \<and> a < length h \<longrightarrow> h2 ! a = h ! a)"

text \<open>Both loops are instances of one loop over a table, which the proofs go through.\<close>

fun table_loop ::
  "(heap \<Rightarrow> string \<Rightarrow> jsval \<Rightarrow> error + props) \<Rightarrow> string \<Rightarrow> jsval \<Rightarrow> addr \<Rightarrow> string list \<Rightarrow> heap \<Rightarrow>
   error + heap" where
  "table_loop ctor f schema table [] h = Inr h"
| "table_loop ctor f schema table (k # rest) h =
     (case get_prop h schema f of
        Inl e \<Rightarrow> Inl e
      | Inr m \<Rightarrow>
          (case has_own_property h m k of
             Inl e \<Rightarrow> Inl e
           | Inr is_own \<Rightarrow>
               if is_own then
                 (case get_prop h m k of
                    Inl e \<Rightarrow> Inl e
                  | Inr d \<Rightarrow>
                      (case ctor h k d of
                         Inl e \<Rightarrow> Inl e
                       | Inr ps \<Rightarrow>
                           table_loop ctor f schema table rest
                             (put_prop (h @ [Obj ps []]) table k (Ref (length h)))))
               else table_loop ctor f schema table rest h))"

text \<open>
  \<open>made_by ctor h0 m table h' k i\<close>: the object at address \<open>i\<close> of the store \<open>h'\<close> is
  the instance that the loop over the mapping \<open>m\<close> built for the name \<open>k\<close>. Its
  properties are what \<open>ctor\<close> returned for \<open>k\<close> and the raw definition \<open>m[k]\<close>, called
  in the store \<open>hk\<close> of that moment: \<open>hk\<close> ends just below \<open>i\<close>, still has every object
  of the caller's store \<open>h0\<close> unchanged, and everywhere but at the table under
  construction it has what \<open>h'\<close> has.
\<close>

definition made_by ::
  "(heap \<Rightarrow> string \<Rightarrow> jsval \<Rightarrow> error + props) \<Rightarrow> heap \<Rightarrow> jsval \<Rightarrow> addr \<Rightarrow> heap \<Rightarrow> string \<Rightarrow> addr \<Rightarrow> bool" where
  "made_by ctor h0 m table h' k i \<longleftrightarrow>
     (\<exists>hk d ps. get_prop h0 m k = Inr d \<and> ctor hk k d = Inr ps \<and>
        length hk = i \<and> i < length h' \<and> h' ! i = Obj ps [] \<and> keeps h0 hk \<and>
        (\<forall>a<i. a \<noteq> table \<longrightarrow> hk ! a = h' ! a))"

text \<open>
  The loops reach a constructor call that throws: the enum pass has run through the names
  \<open>ks1\<close>, the next name \<open>k\<close> is an own property with raw definition \<open>d\<close>, and the
  constructor throws \<open>e\<close> for it in the store \<open>hk\<close> reached so far. For the class pass the
  enum pass has completed before.
\<close>

definition enum_pass_throws ::
  "(heap \<Rightarrow> enum_options \<Rightarrow> error + props) \<Rightarrow> heap \<Rightarrow> jsval \<Rightarrow> error \<Rightarrow> bool" where
  "enum_pass_throws MetadataEnum h schema e \<longleftrightarrow>
     (\<exists>se ks1 k ks2 hk m d.
        get_prop (h @ [Obj [] []]) schema ''enums'' = Inr se \<and>
        for_in_keys (h @ [Obj [] []]) se = ks1 @ k # ks2 \<and>
        enum_loop MetadataEnum schema (length h) ks1 (h @ [Obj [] []]) = Inr hk \<and>
        get_prop hk schema ''enums'' = Inr m \<and>
        has_own_property hk m k = Inr True \<and>
        get_prop hk m k = Inr d \<and>
        MetadataEnum hk \<lparr>eo_id = k, eo_enum = d\<rparr> = Inl e)"

definition class_pass_throws ::
  "(heap \<Rightarrow> enum_options \<Rightarrow> error + props) \<Rightarrow> (heap \<Rightarrow> class_options \<Rightarrow> error + props) \<Rightarrow>
   heap \<Rightarrow> jsval \<Rightarrow> error \<Rightarrow> bool" where
  "class_pass_throws MetadataEnum MetadataClass h schema e \<longleftrightarrow>
     (\<exists>se h2 sc ks1 k ks2 hk m d.
        get_prop (h @ [Obj [] []]) schema ''enums'' = Inr se \<and>
        enum_loop MetadataEnum schema (length h) (for_in_keys (h @ [Obj [] []]) se) (h @ [Obj [] []])
          = Inr h2 \<and>
        get_prop (h2 @ [Obj [] []]) schema ''classes'' = Inr sc \<and>
        for_in_keys (h2 @ [Obj [] []]) sc = ks1 @ k # ks2 \<and>
        class_loop MetadataClass schema (length h2) (length h) ks1 (h2 @ [Obj [] []]) = Inr hk \<and>
        get_prop hk schema ''classes'' = Inr m \<and>
        has_own_property hk m k = Inr True \<and>
        get_prop hk m k = Inr d \<and>
        MetadataClass hk \<lparr>co_id = k, co_class = d, co_enums = Ref (length h)\<rparr> = Inl e)"

text \<open>
  Two values have the same shape when a reader sees the same tree through both, to any
  depth. A plain object has no enumerable property on its prototype chain, as the objects
  that \<open>JSON.parse\<close> yields. The instances of a Schema are the values held in its two
  tables.
\<close>

definition same_shape :: "heap \<Rightarrow> jsval \<Rightarrow> jsval \<Rightarrow> bool" where
  "same_shape h v w \<longleftrightarrow> (\<forall>d. observe d h v = observe d h w)"

definition plain_object :: "heap \<Rightarrow> jsval \<Rightarrow> bool" where
  "plain_object h v =
     (case v of
        Ref a \<Rightarrow> (case lookup h a of Some c \<Rightarrow> inherited c = [] | None \<Rightarrow> False)
      | _ \<Rightarrow> False)"

definition table_values :: "heap \<Rightarrow> jsval \<Rightarrow> jsval list" where
  "table_values h v =
     (case v of
        Ref t \<Rightarrow> (case lookup h t of Some c \<Rightarrow> map snd (own c) | None \<Rightarrow> [])
      | _ \<Rightarrow> [])"

definition instances :: "heap \<Rightarrow> props \<Rightarrow> jsval list" where
  "instances h this = table_values h (enums this) @ table_values h (classes this)"

text \<open>
  The names through which a Schema is read, and the fields of the instance behind them.
\<close>

definition backing_fields :: "string list" where
  "backing_fields = [''_classes'', ''_enums'', ''_name'', ''_description'', ''_extras'']"

definition accessor_names :: "string list" where
  "accessor_names = map fst MetadataSchema_prototype"

section \<open>A sample input\<close>

text \<open>
  Modelled from the spec: stand-ins for the imported constructors \<open>MetadataEnum\<close> and
  \<open>MetadataClass\<close> (Scene/MetadataEnum.js, Scene/MetadataClass.js, not among the
  sources), used only as concrete inputs. The spec (3, 4.1, 4.2): an Enum exposes its
  identifier and its construction fails on a structurally invalid definition; a Class
  exposes its identifier, resolves an enum reference by identifier in the enum mapping it
  is given, and fails if the identifier is absent from that mapping.
\<close>

definition example_MetadataEnum :: "heap \<Rightarrow> enum_options \<Rightarrow> error + props" where
  "example_MetadataEnum h options =
     (case eo_enum options of
        Ref a \<Rightarrow> Inr [(''_id'', Str (eo_id options))]
      | _ \<Rightarrow> Inl (Thrown (Str ''enum definition is not an object'')))"

definition example_MetadataClass :: "heap \<Rightarrow> class_options \<Rightarrow> error + props" where
  "example_MetadataClass h options =
     (case get_prop h (co_class options) ''enumType'' of
        Inr (Str e) \<Rightarrow>
          (case get_prop h (co_enums options) e of
             Inr (Ref i) \<Rightarrow> Inr [(''_id'', Str (co_id options)), (''_enumType'', Ref i)]
           | _ \<Rightarrow> Inl (Thrown (Str e)))
      | Inr _ \<Rightarrow> Inr [(''_id'', Str (co_id options))]
      | Inl e \<Rightarrow> Inl e)"

text \<open>
  A store with two structurally identical schema objects (at addresses 0 and 7, sharing no
  object) and a schema whose class refers to an enum that does not exist (at address 14).
  The enum mappings at addresses 1 and 8 also see an enumerable property \<open>legacy\<close>
  through their prototype.
  \<open>example_this\<close> and \<open>example_store_after\<close> are the Schema and the store that the
  construction from the object at address 0 yields.
\<close>

definition example_store :: heap where
  "example_store =
     [Obj [(''enums'', Ref 1), (''classes'', Ref 2), (''name'', Str ''trees''), (''extras'', Ref 3)] [],
      Obj [(''species'', Ref 4)] [(''legacy'', Ref 4)],
      Obj [(''tree'', Ref 5)] [],
      Obj [(''author'', Str ''a''), (''tags'', Ref 6)] [],
      Obj [] [],
      Obj [(''enumType'', Str ''species'')] [],
      Obj [(''0'', Str ''x'')] [],
      Obj [(''enums'', Ref 8), (''classes'', Ref 9), (''name'', Str ''trees''), (''extras'', Ref 10)] [],
      Obj [(''species'', Ref 11)] [(''legacy'', Ref 11)],
      Obj [(''tree'', Ref 12)] [],
      Obj [(''author'', Str ''a''), (''tags'', Ref 13)] [],
      Obj [] [],
      Obj [(''enumType'', Str ''species'')] [],
      Obj [(''0'', Str ''x'')] [],
      Obj [(''classes'', Ref 15)] [],
      Obj [(''tree'', Ref 16)] [],
      Obj [(''enumType'', Str ''genus'')] []]"

definition example_this :: props where
  "example_this =
     [(''_classes'', Ref 19), (''_enums'', Ref 17), (''_name'', Str ''trees''),
      (''_description'', Undefined), (''_extras'', Ref 22)]"

definition example_store_after :: heap where
  "example_store_after = example_store @
     [Obj [(''species'', Ref 18)] [],
      Obj [(''_id'', Str ''species'')] [],
      Obj [(''tree'', Ref 20)] [],
      Obj [(''_id'', Str ''tree''), (''_enumType'', Ref 18)] [],
      Obj [(''0'', Str ''x'')] [],
      Obj [(''author'', Str ''a''), (''tags'', Ref 21)] []]"

text \<open>
  \<open>example_this2\<close> and \<open>example_store_after2\<close>: the Schema and the store that a second
  construction, from the object at address 7 and in the store left by the first, yields.
\<close>

definition example_this2 :: props where
  "example_this2 =
     [(''_classes'', Ref 25), (''_enums'', Ref 23), (''_name'', Str ''trees''),
      (''_description'', Undefined), (''_extras'', Ref 28)]"

definition example_store_after2 :: heap where
  "example_store_after2 = example_store_after @
     [Obj [(''species'', Ref 24)] [],
      Obj [(''_id'', Str ''species'')] [],
      Obj [(''tree'', Ref 26)] [],
      Obj [(''_id'', Str ''tree''), (''_enumType'', Ref 24)] [],
      Obj [(''0'', Str ''x'')] [],
      Obj [(''author'', Str ''a''), (''tags'', Ref 27)] []]"

text \<open>
  Two inputs whose enum mapping has an own property with a name that JavaScript treats
  specially. \<open>hasOwnProperty_key_store\<close> has, at address 0, the schema that \<open>JSON.parse\<close>
  yields for the text \<open>{"enums": {"hasOwnProperty": {}}}\<close>. \<open>proto_key_store\<close> has,
  at address 0, the schema that it yields for \<open>{"enums": {"__proto__": {}, "x": {}}}\<close>:
  the enum mapping, at address 1, has the own enumerable names \<open>__proto__\<close> and \<open>x\<close>.
  \<open>proto_key_this\<close> and \<open>proto_key_store_after\<close> are the Schema and the store that
  the construction from it yields.
\<close>

definition hasOwnProperty_key_store :: heap where
  "hasOwnProperty_key_store =
     [Obj [(''enums'', Ref 1)] [],
      Obj [(''hasOwnProperty'', Ref 2)] [],
      Obj [] []]"

definition proto_key_store :: heap where
  "proto_key_store =
     [Obj [(''enums'', Ref 1)] [],
      Obj [(''__proto__'', Ref 2), (''x'', Ref 3)] [],
      Obj [] [],
      Obj [] []]"

definition proto_key_this :: props where
  "proto_key_this =
     [(''_classes'', Ref 7), (''_enums'', Ref 4), (''_name'', Undefined),
      (''_description'', Undefined), (''_extras'', Undefined)]"

definition proto_key_store_after :: heap where
  "proto_key_store_after = proto_key_store @
     [Obj [(''x'', Ref 6)] [(''_id'', Str ''__proto__'')],
      Obj [(''_id'', Str ''__proto__'')] [],
      Obj [(''_id'', Str ''x'')] [],
      Obj [] []]"

section \<open>Scene/Atmosphere.js\<close>

text \<open>
  \<open>Cartesian2\<close>, \<open>Cartesian3\<close> and \<open>DynamicAtmosphereLightingType\<close> are imported by
  Atmosphere.js; only their constructors and the member names that Atmosphere.js mentions
  are needed.
\<close>

datatype Cartesian2 = Cartesian2 real real

datatype Cartesian3 = Cartesian3 real real real

datatype DynamicAtmosphereLightingType = NONE | SCENE_LIGHT | SUNLIGHT

record atmosphere =
  lightIntensity :: real
  rayleighCoefficient :: Cartesian3
  mieCoefficient :: Cartesian3
  rayleighScaleHeight :: real
  mieScaleHeight :: real
  mieAnisotropy :: real
  hueShift :: real
  saturationShift :: real
  brightnessShift :: real
  dynamicLighting :: DynamicAtmosphereLightingType
  lightingFadeRange :: Cartesian2
  nightFadeRange :: Cartesian2
  showGroundAtmosphere :: bool

text \<open>
  The constructor body is a sequence of assignments to the fields of \<open>this\<close>, in the
  order of the source. A literal such as \<open>1.0e7\<close> is written by its decimal value.
\<close>

definition Atmosphere :: "atmosphere \<Rightarrow> atmosphere" where
  "Atmosphere this = this
     \<lparr> lightIntensity := 10.0,
       rayleighCoefficient := Cartesian3 (5.5 / 10 ^ 6) (13.0 / 10 ^ 6) (28.4 / 10 ^ 6),
       mieCoefficient := Cartesian3 (21 / 10 ^ 6) (21 / 10 ^ 6) (21 / 10 ^ 6),
       rayleighScaleHeight := 10000.0,
       mieScaleHeight := 3200.0,
       mieAnisotropy := 0.9,
       hueShift := 0.0,
       saturationShift := 0.0,
       brightnessShift := 0.0,
       dynamicLighting := NONE,
       lightingFadeRange := Cartesian2 (1.0 * 10 ^ 7) (2.0 * 10 ^ 7),
       nightFadeRange := Cartesian2 (1.0 * 10 ^ 7) (5.0 * 10 ^ 7),
       showGroundAtmosphere := True \<rparr>"

section \<open>The store: lemmas\<close>

lemma enum_loop_table:
  "enum_loop MetadataEnum schema etab ks h =
     table_loop (\<lambda>h k d. MetadataEnum h \<lparr>eo_id = k, eo_enum = d\<rparr>) ''enums'' schema etab ks h"
  by (induction ks arbitrary: h) (auto simp: new_def alloc_def split: sum.splits)

lemma class_loop_table:
  "class_loop MetadataClass schema ctab etab ks h =
     table_loop (\<lambda>h k d. MetadataClass h \<lparr>co_id = k, co_class = d, co_enums = Ref etab\<rparr>)
       ''classes'' schema ctab ks h"
  by (induction ks arbitrary: h) (auto simp: new_def alloc_def split: sum.splits)

lemma keeps_iff: "keeps h0 h \<longleftrightarrow> (\<exists>cs. h = h0 @ cs)"
proof
  assume "keeps h0 h"
  then have "h = h0 @ drop (length h0) h"
    using append_take_drop_id [of "length h0" h] by (simp add: keeps_def)
  then show "\<exists>cs. h = h0 @ cs" ..
next
  assume "\<exists>cs. h = h0 @ cs"
  then show "keeps h0 h" by (auto simp: keeps_def)
qed

lemma keeps_refl: "keeps h h"
  by (simp add: keeps_def)

lemma keeps_length: "keeps h0 h \<Longrightarrow> length h0 \<le> length h"
  by (auto simp: keeps_iff)

lemma keeps_nth: "keeps h0 h \<Longrightarrow> a < length h0 \<Longrightarrow> h ! a = h0 ! a"
  by (auto simp: keeps_iff nth_append)

lemma keeps_lookup: "keeps h0 h \<Longrightarrow> a < length h0 \<Longrightarrow> lookup h a = lookup h0 a"
  by (auto simp: keeps_iff lookup_def nth_append)

lemma keeps_append: "keeps h0 h \<Longrightarrow> keeps h0 (h @ cs)"
  by (auto simp: keeps_iff)

lemma keeps_update: "keeps h0 h \<Longrightarrow> length h0 \<le> a \<Longrightarrow> keeps h0 (h[a := c])"
  by (auto simp: keeps_iff list_update_append)

lemma keeps_trans: "keeps h0 h1 \<Longrightarrow> keeps h1 h2 \<Longrightarrow> keeps h0 h2"
  by (auto simp: keeps_iff)

lemma keeps_put_prop: "keeps h0 h \<Longrightarrow> length h0 \<le> a \<Longrightarrow> keeps h0 (put_prop h a k v)"
  by (simp add: put_prop_def keeps_update split: option.splits jsval.splits)

lemma length_put_prop: "length (put_prop h a k v) = length h"
  by (simp add: put_prop_def split: option.splits jsval.splits)

text \<open>Reads of a value of the old store are the same in a store that keeps it.\<close>

lemma keeps_get_prop:
  "keeps h0 h \<Longrightarrow> in_store h0 v \<Longrightarrow> get_prop h v k = get_prop h0 v k"
  by (cases v) (simp_all add: get_prop_def in_store_def keeps_lookup)

lemma keeps_has_own_property:
  "keeps h0 h \<Longrightarrow> in_store h0 v \<Longrightarrow> has_own_property h v k = has_own_property h0 v k"
  by (cases v) (simp_all add: has_own_property_def in_store_def keeps_lookup)

lemma keeps_own_keys:
  "keeps h0 h \<Longrightarrow> in_store h0 v \<Longrightarrow> own_keys h v = own_keys h0 v"
  by (cases v) (simp_all add: own_keys_def in_store_def keeps_lookup)

lemma keeps_for_in_keys:
  "keeps h0 h \<Longrightarrow> in_store h0 v \<Longrightarrow> for_in_keys h v = for_in_keys h0 v"
  by (cases v) (simp_all add: for_in_keys_def own_keys_def inherited_keys_def in_store_def keeps_lookup)

lemma closed_storeD:
  assumes "closed_store h" "a < length h" "(k, u) \<in> set (own (h ! a)) \<union> set (inherited (h ! a))"
  shows "in_store h u"
proof -
  have "h ! a \<in> set h" using assms(2) by simp
  with assms(1) have "\<forall>p \<in> set (own (h ! a) @ inherited (h ! a)). in_store h (snd p)"
    unfolding closed_store_def list_all_iff by blast
  moreover have "(k, u) \<in> set (own (h ! a) @ inherited (h ! a))" using assms(3) by simp
  ultimately have "in_store h (snd (k, u))" by blast
  then show ?thesis by simp
qed

lemma closed_get_prop:
  assumes "closed_store h" "get_prop h v k = Inr w"
  shows "in_store h w"
proof (cases v)
  case (Ref a)
  with assms(2) obtain c where c: "a < length h" "h ! a = c"
    by (auto simp: get_prop_def lookup_def split: if_splits)
  have all: "in_store h u" if "(k, u) \<in> set (own c) \<union> set (inherited c)" for k u
    using closed_storeD [OF assms(1) c(1)] c(2) that by blast
  show ?thesis
  proof (cases "map_of (own c) k")
    case (Some u)
    then have "(k, u) \<in> set (own c)" by (rule map_of_SomeD)
    with all have "in_store h u" by blast
    with Some Ref c assms(2) show ?thesis by (simp add: get_prop_def lookup_def)
  next
    case None
    show ?thesis
    proof (cases "map_of (inherited c) k")
      case (Some u)
      then have "(k, u) \<in> set (inherited c)" by (rule map_of_SomeD)
      with all have "in_store h u" by auto
      with Some None Ref c assms(2) show ?thesis by (simp add: get_prop_def lookup_def)
    next
      case None' : None
      with None Ref c assms(2) show ?thesis by (auto simp: get_prop_def lookup_def in_store_def)
    qed
  qed
qed (use assms(2) in \<open>auto simp: get_prop_def in_store_def split: option.splits if_splits\<close>)

lemma put_prop_nth_other: "a \<noteq> t \<Longrightarrow> put_prop h t k v ! a = h ! a"
  by (simp add: put_prop_def split: option.splits jsval.splits)

lemma put_prop_nth_same:
  "t < length h \<Longrightarrow> k \<noteq> ''__proto__'' \<Longrightarrow>
   put_prop h t k v ! t = Obj (AList.update k v (own (h ! t))) (inherited (h ! t))"
  by (simp add: put_prop_def lookup_def)

lemma put_prop_proto_own:
  "t < length h \<Longrightarrow> own (put_prop h t ''__proto__'' v ! t) = own (h ! t)"
  by (simp add: put_prop_def lookup_def split: option.splits jsval.splits)

lemma put_prop_own:
  "t < length h \<Longrightarrow>
   own (put_prop h t k v ! t)
     = (if k = ''__proto__'' then own (h ! t) else AList.update k v (own (h ! t)))"
  by (simp add: put_prop_nth_same put_prop_proto_own)

lemma set_update_subset: "set (AList.update k v al) \<subseteq> insert (k, v) (set al)"
  by (induction al) auto

lemma keys_update: "fst ` set (AList.update k v al) = insert k (fst ` set al)"
  by (simp add: AList.dom_update)

lemma map_of_update_other: "k' \<noteq> k \<Longrightarrow> map_of (AList.update k v al) k' = map_of al k'"
  by (simp add: AList.update_conv')

lemma map_of_update_same: "map_of (AList.update k v al) k = Some v"
  by (simp add: AList.update_conv')

text \<open>
  What the loop over a table establishes. The loop changes the table and nothing else that
  existed before; it asks \<open>hasOwnProperty\<close> for every name and gets an answer; it leaves
  the entry of every name alone that it does not visit as an own name, and that of
  \<open>__proto__\<close>; for every own name it visits it has built an instance, which is the
  table's entry for that name unless the name is \<open>__proto__\<close>.
\<close>

lemma table_loop_inv:
  assumes c: "closed_store h0" and i: "in_store h0 schema" and t: "length h0 \<le> table"
    and m: "get_prop h0 schema f = Inr m"
  shows "table_loop ctor f schema table ks h = Inr h' \<Longrightarrow> keeps h0 h \<Longrightarrow> table < length h \<Longrightarrow>
     keeps h0 h' \<and> length h \<le> length h' \<and> (\<forall>a<length h. a \<noteq> table \<longrightarrow> h' ! a = h ! a)
     \<and> (\<forall>k \<in> set ks. \<exists>b. has_own_property h0 m k = Inr b)
     \<and> (\<forall>k. \<not> (k \<in> set ks \<and> has_own_property h0 m k = Inr True \<and> k \<noteq> ''__proto__'')
           \<longrightarrow> map_of (own (h' ! table)) k = map_of (own (h ! table)) k)
     \<and> (\<forall>k \<in> set ks. has_own_property h0 m k = Inr True \<longrightarrow>
           (\<exists>i. length h \<le> i \<and> made_by ctor h0 m table h' k i
              \<and> (k \<noteq> ''__proto__'' \<longrightarrow> map_of (own (h' ! table)) k = Some (Ref i))))
     \<and> (distinct (map fst (own (h ! table))) \<longrightarrow> distinct (map fst (own (h' ! table))))
     \<and> (\<not> (''__proto__'' \<in> set ks \<and> has_own_property h0 m ''__proto__'' = Inr True)
           \<longrightarrow> inherited (h' ! table) = inherited (h ! table))"
proof (induction ks arbitrary: h)
  case Nil
  then show ?case by simp
next
  case (Cons k rest)
  have mh: "get_prop h schema f = Inr m"
    using keeps_get_prop [OF Cons.prems(2) i] m by simp
  have min: "in_store h0 m" using closed_get_prop [OF c m] .
  from Cons.prems(1) mh obtain b where b: "has_own_property h m k = Inr b"
    by (auto split: sum.splits)
  then have b0: "has_own_property h0 m k = Inr b"
    using keeps_has_own_property [OF Cons.prems(2) min] by simp
  show ?case
  proof (cases b)
    case False
    with Cons.prems(1) mh b have run: "table_loop ctor f schema table rest h = Inr h'" by simp
    note IH = Cons.IH [OF run Cons.prems(2) Cons.prems(3)]
    have A: "keeps h0 h'" and B: "length h \<le> length h'"
      and C: "\<forall>a<length h. a \<noteq> table \<longrightarrow> h' ! a = h ! a"
      and P3: "distinct (map fst (own (h ! table))) \<longrightarrow> distinct (map fst (own (h' ! table)))"
      using IH by blast+
    have D: "\<forall>k' \<in> set (k # rest). \<exists>b. has_own_property h0 m k' = Inr b"
      using IH b0 by simp
    have P1: "\<forall>k'. \<not> (k' \<in> set (k # rest) \<and> has_own_property h0 m k' = Inr True \<and> k' \<noteq> ''__proto__'')
           \<longrightarrow> map_of (own (h' ! table)) k' = map_of (own (h ! table)) k'"
    proof (intro allI impI)
      fix k' assume "\<not> (k' \<in> set (k # rest) \<and> has_own_property h0 m k' = Inr True \<and> k' \<noteq> ''__proto__'')"
      then have "\<not> (k' \<in> set rest \<and> has_own_property h0 m k' = Inr True \<and> k' \<noteq> ''__proto__'')"
        by auto
      with IH show "map_of (own (h' ! table)) k' = map_of (own (h ! table)) k'" by blast
    qed
    have P2: "\<forall>k' \<in> set (k # rest). has_own_property h0 m k' = Inr True \<longrightarrow>
           (\<exists>i. length h \<le> i \<and> made_by ctor h0 m table h' k' i
              \<and> (k' \<noteq> ''__proto__'' \<longrightarrow> map_of (own (h' ! table)) k' = Some (Ref i)))"
    proof (intro ballI impI)
      fix k' assume k': "k' \<in> set (k # rest)" and o: "has_own_property h0 m k' = Inr True"
      from o b0 False have "k' \<noteq> k" by auto
      with k' have "k' \<in> set rest" by simp
      with IH o show "\<exists>i. length h \<le> i \<and> made_by ctor h0 m table h' k' i
              \<and> (k' \<noteq> ''__proto__'' \<longrightarrow> map_of (own (h' ! table)) k' = Some (Ref i))"
        by blast
    qed
    have P4: "\<not> (''__proto__'' \<in> set (k # rest) \<and> has_own_property h0 m ''__proto__'' = Inr True)
           \<longrightarrow> inherited (h' ! table) = inherited (h ! table)"
    proof
      assume "\<not> (''__proto__'' \<in> set (k # rest) \<and> has_own_property h0 m ''__proto__'' = Inr True)"
      then have "\<not> (''__proto__'' \<in> set rest \<and> has_own_property h0 m ''__proto__'' = Inr True)"
        by auto
      with IH show "inherited (h' ! table) = inherited (h ! table)" by blast
    qed
    from A B C D P1 P2 P3 P4 show ?thesis by blast
  next
    case True
    from Cons.prems(1) mh b True obtain d where d: "get_prop h m k = Inr d"
      by (auto split: sum.splits)
    then have d0: "get_prop h0 m k = Inr d"
      using keeps_get_prop [OF Cons.prems(2) min] by simp
    from Cons.prems(1) mh b True d obtain ps where ps: "ctor h k d = Inr ps"
      by (auto split: sum.splits)
    define h1 where "h1 = put_prop (h @ [Obj ps []]) table k (Ref (length h))"
    have run: "table_loop ctor f schema table rest h1 = Inr h'"
      using Cons.prems(1) mh b True d ps by (simp add: h1_def)
    have k1: "keeps h0 h1"
      unfolding h1_def using Cons.prems(2) t by (simp add: keeps_put_prop keeps_append)
    have l1: "length h1 = Suc (length h)" by (simp add: h1_def length_put_prop)
    have t1: "table < length h1" using Cons.prems(3) l1 by simp
    have other: "h1 ! a = h ! a" if "a < length h" "a \<noteq> table" for a
      using that by (simp add: h1_def put_prop_nth_other nth_append)
    have newcell: "h1 ! length h = Obj ps []"
      using Cons.prems(3) by (simp add: h1_def put_prop_nth_other)
    have tabown: "own (h1 ! table)
        = (if k = ''__proto__'' then own (h ! table)
           else AList.update k (Ref (length h)) (own (h ! table)))"
      using Cons.prems(3) unfolding h1_def by (simp add: put_prop_own nth_append)
    have tabinh: "inherited (h1 ! table) = inherited (h ! table)" if "k \<noteq> ''__proto__''"
      using Cons.prems(3) that unfolding h1_def by (simp add: put_prop_nth_same nth_append)
    note IH = Cons.IH [OF run k1 t1]
    have A: "keeps h0 h'" using IH by blast
    have B1: "length h1 \<le> length h'" using IH by blast
    have B: "length h \<le> length h'" using B1 l1 by simp
    have C1: "\<forall>a<length h1. a \<noteq> table \<longrightarrow> h' ! a = h1 ! a" using IH by blast
    have C: "\<forall>a<length h. a \<noteq> table \<longrightarrow> h' ! a = h ! a"
      using C1 l1 other by auto
    have D: "\<forall>k' \<in> set (k # rest). \<exists>b. has_own_property h0 m k' = Inr b"
      using IH b0 by simp
    have Q1: "\<forall>k'. \<not> (k' \<in> set rest \<and> has_own_property h0 m k' = Inr True \<and> k' \<noteq> ''__proto__'')
           \<longrightarrow> map_of (own (h' ! table)) k' = map_of (own (h1 ! table)) k'"
      using IH by blast
    have P1: "\<forall>k'. \<not> (k' \<in> set (k # rest) \<and> has_own_property h0 m k' = Inr True \<and> k' \<noteq> ''__proto__'')
           \<longrightarrow> map_of (own (h' ! table)) k' = map_of (own (h ! table)) k'"
    proof (intro allI impI)
      fix k' assume n: "\<not> (k' \<in> set (k # rest) \<and> has_own_property h0 m k' = Inr True \<and> k' \<noteq> ''__proto__'')"
      then have "\<not> (k' \<in> set rest \<and> has_own_property h0 m k' = Inr True \<and> k' \<noteq> ''__proto__'')"
        by auto
      with Q1 have 1: "map_of (own (h' ! table)) k' = map_of (own (h1 ! table)) k'" by blast
      have 2: "map_of (own (h1 ! table)) k' = map_of (own (h ! table)) k'"
      proof (cases "k = ''__proto__''")
        case True
        then show ?thesis by (simp add: tabown)
      next
        case False
        with n b0 \<open>b\<close> have "k' \<noteq> k" by auto
        with False show ?thesis by (simp add: tabown map_of_update_other)
      qed
      from 1 2 show "map_of (own (h' ! table)) k' = map_of (own (h ! table)) k'" by simp
    qed
    have P2: "\<forall>k' \<in> set (k # rest). has_own_property h0 m k' = Inr True \<longrightarrow>
           (\<exists>i. length h \<le> i \<and> made_by ctor h0 m table h' k' i
              \<and> (k' \<noteq> ''__proto__'' \<longrightarrow> map_of (own (h' ! table)) k' = Some (Ref i)))"
    proof (intro ballI impI)
      fix k' assume k': "k' \<in> set (k # rest)" and o: "has_own_property h0 m k' = Inr True"
      show "\<exists>i. length h \<le> i \<and> made_by ctor h0 m table h' k' i
              \<and> (k' \<noteq> ''__proto__'' \<longrightarrow> map_of (own (h' ! table)) k' = Some (Ref i))"
      proof (cases "k' \<in> set rest")
        case True
        with IH o obtain j where "length h1 \<le> j" "made_by ctor h0 m table h' k' j"
          "k' \<noteq> ''__proto__'' \<longrightarrow> map_of (own (h' ! table)) k' = Some (Ref j)"
          by blast
        moreover from this(1) l1 have "length h \<le> j" by simp
        ultimately show ?thesis by blast
      next
        case False
        with k' have kk: "k' = k" by simp
        have cell: "h' ! length h = Obj ps []"
          using C1 l1 newcell Cons.prems(3) by auto
        have lt: "length h < length h'" using B1 l1 by simp
        have fr: "\<forall>a<length h. a \<noteq> table \<longrightarrow> h ! a = h' ! a" using C by simp
        have mb: "made_by ctor h0 m table h' k (length h)"
          unfolding made_by_def using d0 ps lt cell Cons.prems(2) fr by blast
        have mp: "map_of (own (h' ! table)) k = Some (Ref (length h))" if "k \<noteq> ''__proto__''"
        proof -
          have "map_of (own (h' ! table)) k = map_of (own (h1 ! table)) k"
            using Q1 False kk by blast
          then show ?thesis using that by (simp add: tabown map_of_update_same)
        qed
        from mb mp kk show ?thesis by blast
      qed
    qed
    have P3: "distinct (map fst (own (h ! table))) \<longrightarrow> distinct (map fst (own (h' ! table)))"
    proof
      assume "distinct (map fst (own (h ! table)))"
      then have "distinct (map fst (own (h1 ! table)))"
        by (simp add: tabown AList.distinct_update)
      with IH show "distinct (map fst (own (h' ! table)))" by blast
    qed
    have P4: "\<not> (''__proto__'' \<in> set (k # rest) \<and> has_own_property h0 m ''__proto__'' = Inr True)
           \<longrightarrow> inherited (h' ! table) = inherited (h ! table)"
    proof
      assume n: "\<not> (''__proto__'' \<in> set (k # rest) \<and> has_own_property h0 m ''__proto__'' = Inr True)"
      then have "\<not> (''__proto__'' \<in> set rest \<and> has_own_property h0 m ''__proto__'' = Inr True)"
        by auto
      with IH have 1: "inherited (h' ! table) = inherited (h1 ! table)" by blast
      from n b0 \<open>b\<close> have "k \<noteq> ''__proto__''" by auto
      with 1 tabinh show "inherited (h' ! table) = inherited (h ! table)" by simp
    qed
    from A B C D P1 P2 P3 P4 show ?thesis by blast
  qed
qed

section \<open>The deep copy: lemmas\<close>

lemma keepsI: "length h0 \<le> length h \<Longrightarrow> (\<forall>a<length h0. h ! a = h0 ! a) \<Longrightarrow> keeps h0 h"
  unfolding keeps_def by (rule nth_equalityI) auto

lemma keeps_same_above: "keeps h1 h2 \<Longrightarrow> same_above lo h1 h2"
  by (auto simp: same_above_def keeps_length keeps_nth)

lemma same_above_keeps: "keeps h1 h2 \<Longrightarrow> same_above lo h2 hx \<Longrightarrow> same_above lo h1 hx"
  using keeps_length [of h1 h2] by (auto simp: same_above_def keeps_nth)

lemma same_above_mono: "lo \<le> lo' \<Longrightarrow> same_above lo h hx \<Longrightarrow> same_above lo' h hx"
  by (auto simp: same_above_def)

lemma same_above_lookup:
  "same_above lo h hx \<Longrightarrow> lo \<le> a \<Longrightarrow> a < length h \<Longrightarrow> lookup hx a = lookup h a"
  by (auto simp: same_above_def lookup_def)

lemma observe_leaf:
  "observe d h Undefined = Leaf Undefined"
  "observe d h Null = Leaf Null"
  "observe d h (Bool b) = Leaf (Bool b)"
  "observe d h (Num x) = Leaf (Num x)"
  "observe d h (Str s) = Leaf (Str s)"
  by (cases d; simp)+

lemma clone_isolated:
  "clone n h v = Inr (v', h') \<longrightarrow>
      keeps h h' \<and> (\<forall>hx d. same_above (length h) h' hx \<longrightarrow> observe d hx v' = observe d h' v')"
  and clone_props_isolated: "clone_props n h ps = Inr (ps', h') \<longrightarrow>
      keeps h h' \<and> map fst ps' = map fst ps \<and>
      (\<forall>hx d. same_above (length h) h' hx \<longrightarrow>
         (\<forall>p \<in> set ps'. observe d hx (snd p) = observe d h' (snd p)))"
proof (induction n h v and n h ps arbitrary: v' h' and ps' h' rule: clone_clone_props.induct)
  case (1 h a)
  then show ?case by simp
next
  case (2 stack h a)
  show ?case
  proof (intro impI)
    assume run: "clone (Suc stack) h (Ref a) = Inr (v', h')"
    then obtain c where c: "lookup h a = Some c" by (auto split: option.splits)
    with run obtain ps1 h1 where p: "clone_props stack h (own c) = Inr (ps1, h1)"
      by (auto split: sum.splits)
    with run c have res: "v' = Ref (length h1)" "h' = h1 @ [Obj ps1 []]"
      by (auto simp: alloc_def)
    from "2.IH" [OF c, of ps1 h1] p
    have k: "keeps h h1"
      and iso: "\<And>hx d p. same_above (length h) h1 hx \<Longrightarrow> p \<in> set ps1 \<Longrightarrow>
                  observe d hx (snd p) = observe d h1 (snd p)"
      by blast+
    have kk: "keeps h1 h'" by (simp add: res keeps_iff)
    have K: "keeps h h'" using k kk by (rule keeps_trans)
    have lh: "length h \<le> length h1" using k by (rule keeps_length)
    have I: "observe d hx v' = observe d h' v'" if sa: "same_above (length h) h' hx" for hx d
    proof (cases d)
      case 0
      then show ?thesis by (simp add: res)
    next
      case (Suc d')
      have l1: "lookup hx (length h1) = Some (Obj ps1 [])"
        using same_above_lookup [OF sa, of "length h1"] lh by (simp add: res lookup_def)
      have l2: "lookup h' (length h1) = Some (Obj ps1 [])" by (simp add: res lookup_def)
      have "observe d' hx (snd p) = observe d' h' (snd p)" if "p \<in> set ps1" for p
      proof -
        have "observe d' hx (snd p) = observe d' h1 (snd p)"
          using iso [OF same_above_keeps [OF kk sa] that] .
        moreover have "observe d' h' (snd p) = observe d' h1 (snd p)"
          using iso [OF keeps_same_above [OF kk] that] .
        ultimately show ?thesis by simp
      qed
      then show ?thesis by (simp add: Suc res(1) l1 l2)
    qed
    from K I show "keeps h h' \<and> (\<forall>hx d. same_above (length h) h' hx \<longrightarrow> observe d hx v' = observe d h' v')"
      by blast
  qed
next
  case (4 stack h)
  then show ?case by (auto simp: keeps_refl)
next
  case (5 stack h k v ps)
  show ?case
  proof (intro impI)
    assume run: "clone_props stack h ((k, v) # ps) = Inr (ps', h')"
    then obtain w h1 where c1: "clone stack h v = Inr (w, h1)" by (auto split: sum.splits)
    with run obtain ps2 where c2: "clone_props stack h1 ps = Inr (ps2, h')" and res: "ps' = (k, w) # ps2"
      by (auto split: sum.splits)
    from "5.IH"(1) [of w h1] c1
    have k1: "keeps h h1"
      and iso1: "\<And>hx d. same_above (length h) h1 hx \<Longrightarrow> observe d hx w = observe d h1 w"
      by blast+
    from "5.IH"(2) [OF c1 refl, of ps2 h'] c2
    have k2: "keeps h1 h'" and keys: "map fst ps2 = map fst ps"
      and iso2: "\<And>hx d p. same_above (length h1) h' hx \<Longrightarrow> p \<in> set ps2 \<Longrightarrow>
                  observe d hx (snd p) = observe d h' (snd p)"
      by blast+
    have lh: "length h \<le> length h1" using k1 by (rule keeps_length)
    have I: "observe d hx (snd p) = observe d h' (snd p)"
      if sa: "same_above (length h) h' hx" and p: "p \<in> set ps'" for hx d p
    proof (cases "p = (k, w)")
      case True
      have "observe d hx w = observe d h1 w" using iso1 [OF same_above_keeps [OF k2 sa]] .
      moreover have "observe d h' w = observe d h1 w" using iso1 [OF keeps_same_above [OF k2]] .
      ultimately show ?thesis using True by simp
    next
      case False
      with p res have "p \<in> set ps2" by simp
      then show ?thesis using iso2 [OF same_above_mono [OF lh sa]] by blast
    qed
    have K: "keeps h h'" using k1 k2 by (rule keeps_trans)
    have M: "map fst ps' = map fst ((k, v) # ps)" using keys res by simp
    from K M I show "keeps h h' \<and> map fst ps' = map fst ((k, v) # ps) \<and>
      (\<forall>hx d. same_above (length h) h' hx \<longrightarrow>
         (\<forall>p \<in> set ps'. observe d hx (snd p) = observe d h' (snd p)))"
      by blast
  qed
qed (auto simp: keeps_refl observe_leaf)

lemma observe_keeps:
  assumes "closed_store h0" "keeps h0 h"
  shows "in_store h0 v \<Longrightarrow> observe d h v = observe d h0 v"
proof (induction d arbitrary: v)
  case 0
  then show ?case by simp
next
  case (Suc d)
  show ?case
  proof (cases v)
    case (Ref a)
    with Suc.prems have a: "a < length h0" by (simp add: in_store_def)
    have l: "lookup h a = Some (h0 ! a)" "lookup h0 a = Some (h0 ! a)"
      using keeps_lookup [OF assms(2) a] a by (simp_all add: lookup_def)
    have "observe d h (snd p) = observe d h0 (snd p)" if "p \<in> set (own (h0 ! a))" for p
    proof -
      have "(fst p, snd p) \<in> set (own (h0 ! a)) \<union> set (inherited (h0 ! a))" using that by simp
      from closed_storeD [OF assms(1) a this] show ?thesis by (rule Suc.IH)
    qed
    then show ?thesis by (simp add: Ref l)
  qed (simp_all add: observe_leaf)
qed

lemma clone_copy:
  assumes "closed_store h0"
  shows "clone n h v = Inr (v', h') \<longrightarrow> keeps h0 h \<longrightarrow> in_store h0 v \<longrightarrow>
           (\<forall>d. observe d h' v' = observe d h0 v)"
  and clone_props_copy: "clone_props n h ps = Inr (ps', h') \<longrightarrow> keeps h0 h \<longrightarrow> (\<forall>p \<in> set ps. in_store h0 (snd p)) \<longrightarrow>
           (\<forall>d. map (\<lambda>p. (fst p, observe d h' (snd p))) ps'
                = map (\<lambda>p. (fst p, observe d h0 (snd p))) ps)"
proof (induction n h v and n h ps arbitrary: v' h' and ps' h' rule: clone_clone_props.induct)
  case (1 h a)
  then show ?case by simp
next
  case (2 stack h a)
  show ?case
  proof (intro impI allI)
    fix d
    assume run: "clone (Suc stack) h (Ref a) = Inr (v', h')" and k: "keeps h0 h"
      and "in_store h0 (Ref a)"
    then have a: "a < length h0" by (simp add: in_store_def)
    have l: "lookup h a = Some (h0 ! a)" "lookup h0 a = Some (h0 ! a)"
      using keeps_lookup [OF k a] a by (simp_all add: lookup_def)
    from run l obtain ps1 h1 where p: "clone_props stack h (own (h0 ! a)) = Inr (ps1, h1)"
      by (auto split: sum.splits)
    with run l have res: "v' = Ref (length h1)" "h' = h1 @ [Obj ps1 []]"
      by (auto simp: alloc_def)
    have ins: "\<forall>p \<in> set (own (h0 ! a)). in_store h0 (snd p)"
    proof
      fix p assume "p \<in> set (own (h0 ! a))"
      then have "(fst p, snd p) \<in> set (own (h0 ! a)) \<union> set (inherited (h0 ! a))" by simp
      from closed_storeD [OF assms a this] show "in_store h0 (snd p)" .
    qed
    from "2.IH" [OF l(1), of ps1 h1] p k ins
    have eq: "map (\<lambda>p. (fst p, observe d' h1 (snd p))) ps1
                = map (\<lambda>p. (fst p, observe d' h0 (snd p))) (own (h0 ! a))" for d'
      by simp
    have kk: "keeps h1 h'" by (simp add: res keeps_iff)
    have up: "observe d' h' (snd q) = observe d' h1 (snd q)" if "q \<in> set ps1" for q d'
      using clone_props_isolated [of stack h "own (h0 ! a)" ps1 h1] p keeps_same_above [OF kk] that
      by blast
    show "observe d h' v' = observe d h0 (Ref a)"
    proof (cases d)
      case 0
      then show ?thesis by (simp add: res)
    next
      case (Suc d')
      have "lookup h' (length h1) = Some (Obj ps1 [])" by (simp add: res lookup_def)
      moreover have "map (\<lambda>p. (fst p, observe d' h' (snd p))) ps1
           = map (\<lambda>p. (fst p, observe d' h1 (snd p))) ps1"
        using up by simp
      ultimately show ?thesis using eq [of d'] by (simp add: Suc res(1) l)
    qed
  qed
next
  case (4 stack h)
  then show ?case by simp
next
  case (5 stack h k v ps)
  show ?case
  proof (intro impI allI)
    fix d
    assume run: "clone_props stack h ((k, v) # ps) = Inr (ps', h')" and kp: "keeps h0 h"
      and ins: "\<forall>p \<in> set ((k, v) # ps). in_store h0 (snd p)"
    from run obtain w h1 where c1: "clone stack h v = Inr (w, h1)" by (auto split: sum.splits)
    with run obtain ps2 where c2: "clone_props stack h1 ps = Inr (ps2, h')" and res: "ps' = (k, w) # ps2"
      by (auto split: sum.splits)
    have k1: "keeps h h1" using clone_isolated [of stack h v w h1] c1 by blast
    have k2: "keeps h1 h'" using clone_props_isolated [of stack h1 ps ps2 h'] c2 by blast
    have e1: "observe d h1 w = observe d h0 v"
      using "5.IH"(1) [of w h1] c1 kp ins by simp
    have "observe d h' w = observe d h1 w"
      using clone_isolated [of stack h v w h1] c1 keeps_same_above [OF k2] by blast
    with e1 have E1: "observe d h' w = observe d h0 v" by simp
    have E2: "map (\<lambda>p. (fst p, observe d h' (snd p))) ps2
                = map (\<lambda>p. (fst p, observe d h0 (snd p))) ps"
      using "5.IH"(2) [OF c1 refl, of ps2 h'] c2 keeps_trans [OF kp k1] ins by simp
    show "map (\<lambda>p. (fst p, observe d h' (snd p))) ps'
                = map (\<lambda>p. (fst p, observe d h0 (snd p))) ((k, v) # ps)"
      using E1 E2 res by simp
  qed
qed (auto simp: observe_leaf)


section \<open>The constructor: lemmas\<close>

lemma MetadataSchema_InrE:
  assumes "MetadataSchema ME MC stack h schema = Inr (s, h')"
  obtains a se h2 sc h4 n dsc x x' where
    "schema = Ref a"
    "get_prop (h @ [Obj [] []]) schema ''enums'' = Inr se"
    "enum_loop ME schema (length h) (for_in_keys (h @ [Obj [] []]) se) (h @ [Obj [] []]) = Inr h2"
    "get_prop (h2 @ [Obj [] []]) schema ''classes'' = Inr sc"
    "class_loop MC schema (length h2) (length h) (for_in_keys (h2 @ [Obj [] []]) sc) (h2 @ [Obj [] []]) = Inr h4"
    "get_prop h4 schema ''name'' = Inr n"
    "get_prop h4 schema ''description'' = Inr dsc"
    "get_prop h4 schema ''extras'' = Inr x"
    "clone stack h4 x = Inr (x', h')"
    "s = [(''_classes'', Ref (length h2)), (''_enums'', Ref (length h)), (''_name'', n),
          (''_description'', dsc), (''_extras'', x')]"
proof -
  from assms obtain a where a: "schema = Ref a"
    by (cases schema) (auto simp: MetadataSchema_def Check_typeOf_object_def)
  with assms have b: "MetadataSchema_body ME MC stack h schema = Inr (s, h')"
    by (simp add: MetadataSchema_def Check_typeOf_object_def)
  from b obtain se where 1: "get_prop (h @ [Obj [] []]) schema ''enums'' = Inr se"
    by (auto simp: MetadataSchema_body_def alloc_def split: sum.splits)
  from b 1 obtain h2 where 2:
    "enum_loop ME schema (length h) (for_in_keys (h @ [Obj [] []]) se) (h @ [Obj [] []]) = Inr h2"
    by (auto simp: MetadataSchema_body_def alloc_def split: sum.splits)
  from b 1 2 obtain sc where 3: "get_prop (h2 @ [Obj [] []]) schema ''classes'' = Inr sc"
    by (auto simp: MetadataSchema_body_def alloc_def split: sum.splits)
  from b 1 2 3 obtain h4 where 4:
    "class_loop MC schema (length h2) (length h) (for_in_keys (h2 @ [Obj [] []]) sc) (h2 @ [Obj [] []]) = Inr h4"
    by (auto simp: MetadataSchema_body_def alloc_def split: sum.splits)
  from b 1 2 3 4 obtain n where 5: "get_prop h4 schema ''name'' = Inr n"
    by (auto simp: MetadataSchema_body_def alloc_def split: sum.splits)
  from b 1 2 3 4 5 obtain dsc where 6: "get_prop h4 schema ''description'' = Inr dsc"
    by (auto simp: MetadataSchema_body_def alloc_def split: sum.splits)
  from b 1 2 3 4 5 6 obtain x where 7: "get_prop h4 schema ''extras'' = Inr x"
    by (auto simp: MetadataSchema_body_def alloc_def split: sum.splits)
  from b 1 2 3 4 5 6 7 obtain x' where 8: "clone stack h4 x = Inr (x', h')"
    and 9: "s = [(''_classes'', Ref (length h2)), (''_enums'', Ref (length h)), (''_name'', n),
          (''_description'', dsc), (''_extras'', x')]"
    by (auto simp: MetadataSchema_body_def alloc_def split: sum.splits)
  from a 1 2 3 4 5 6 7 8 9 show thesis by (rule that)
qed

text \<open>
  When \<open>hasOwnProperty\<close> answers for a name that \<open>for ... in\<close> enumerates, it says
  whether the name is an own enumerable name.
\<close>

lemma has_own_property_for_in:
  "has_own_property h v k = Inr b \<Longrightarrow> k \<in> set (for_in_keys h v) \<Longrightarrow> b = (k \<in> set (own_keys h v))"
proof (cases v)
  case (Ref a)
  then show "has_own_property h v k = Inr b \<Longrightarrow> k \<in> set (for_in_keys h v) \<Longrightarrow>
      b = (k \<in> set (own_keys h v))"
    by (cases "lookup h a")
      (auto simp: for_in_keys_def has_own_property_def own_keys_def inherited_keys_def
        split: if_splits)
qed (auto simp: for_in_keys_def has_own_property_def own_keys_def inherited_keys_def)

lemma visited_own:
  assumes "\<forall>k \<in> set (for_in_keys h v). \<exists>b. has_own_property h v k = Inr b"
  shows "(k \<in> set (for_in_keys h v) \<and> has_own_property h v k = Inr True) = (k \<in> set (own_keys h v))"
proof
  assume "k \<in> set (for_in_keys h v) \<and> has_own_property h v k = Inr True"
  then show "k \<in> set (own_keys h v)" using has_own_property_for_in [of h v k True] by simp
next
  assume o: "k \<in> set (own_keys h v)"
  then have f: "k \<in> set (for_in_keys h v)" by (simp add: for_in_keys_def)
  with assms obtain b where b: "has_own_property h v k = Inr b" by blast
  from has_own_property_for_in [OF b f] o have "b" by simp
  with b f show "k \<in> set (for_in_keys h v) \<and> has_own_property h v k = Inr True" by simp
qed

lemma made_by_keeps:
  assumes "made_by ctor h0 m table h1 k i" "keeps h1 h2"
  shows "made_by ctor h0 m table h2 k i"
proof -
  from assms(1) obtain hk d ps where r: "get_prop h0 m k = Inr d" "ctor hk k d = Inr ps"
    "length hk = i" "i < length h1" "h1 ! i = Obj ps []" "keeps h0 hk"
    "\<forall>a<i. a \<noteq> table \<longrightarrow> hk ! a = h1 ! a"
    unfolding made_by_def by blast
  have l: "i < length h2" using r(4) keeps_length [OF assms(2)] by simp
  have c: "h2 ! i = Obj ps []" using keeps_nth [OF assms(2) r(4)] r(5) by simp
  have f: "\<forall>a<i. a \<noteq> table \<longrightarrow> hk ! a = h2 ! a"
  proof (intro allI impI)
    fix a assume a: "a < i" "a \<noteq> table"
    then have "h2 ! a = h1 ! a" using keeps_nth [OF assms(2), of a] r(4) by simp
    with r(7) a show "hk ! a = h2 ! a" by simp
  qed
  from r(1,2,3) l c r(6) f show ?thesis unfolding made_by_def by blast
qed

text \<open>The loop over a table that starts empty, for all the names of \<open>for ... in\<close>.\<close>

lemma table_loop_fresh:
  assumes c: "closed_store h0" and i: "in_store h0 schema" and t: "length h0 \<le> table"
    and m: "get_prop h0 schema f = Inr m"
    and run: "table_loop ctor f schema table (for_in_keys h0 m) h = Inr h'"
    and k: "keeps h0 h" and tl: "table < length h" and fresh: "h ! table = Obj [] []"
  shows "keeps h0 h'" "length h \<le> length h'" "\<forall>a<length h. a \<noteq> table \<longrightarrow> h' ! a = h ! a"
    "fst ` set (own (h' ! table)) = set (own_keys h0 m) - {''__proto__''}"
    "\<forall>k \<in> set (own_keys h0 m). \<exists>i. length h \<le> i \<and> made_by ctor h0 m table h' k i
        \<and> (k \<noteq> ''__proto__'' \<longrightarrow> map_of (own (h' ! table)) k = Some (Ref i))"
    "\<forall>k v. (k, v) \<in> set (own (h' ! table)) \<longrightarrow>
        (\<exists>i. v = Ref i \<and> length h \<le> i \<and> made_by ctor h0 m table h' k i)"
    "''__proto__'' \<notin> set (own_keys h0 m) \<longrightarrow> inherited (h' ! table) = []"
proof -
  note I = table_loop_inv [OF c i t m run k tl]
  show "keeps h0 h'" "length h \<le> length h'" "\<forall>a<length h. a \<noteq> table \<longrightarrow> h' ! a = h ! a"
    using I by blast+
  have ans: "\<forall>k \<in> set (for_in_keys h0 m). \<exists>b. has_own_property h0 m k = Inr b"
    using I by blast
  note vis = visited_own [OF ans]
  have none: "map_of (own (h' ! table)) k = None" if "k \<notin> set (own_keys h0 m) \<or> k = ''__proto__''" for k
  proof -
    from that have "\<not> (k \<in> set (for_in_keys h0 m) \<and> has_own_property h0 m k = Inr True \<and> k \<noteq> ''__proto__'')"
      using vis [of k] by blast
    with I have "map_of (own (h' ! table)) k = map_of (own (h ! table)) k" by blast
    then show ?thesis by (simp add: fresh)
  qed
  show built: "\<forall>k \<in> set (own_keys h0 m). \<exists>i. length h \<le> i \<and> made_by ctor h0 m table h' k i
        \<and> (k \<noteq> ''__proto__'' \<longrightarrow> map_of (own (h' ! table)) k = Some (Ref i))"
  proof
    fix k assume "k \<in> set (own_keys h0 m)"
    then have "k \<in> set (for_in_keys h0 m)" "has_own_property h0 m k = Inr True"
      using vis [of k] by simp_all
    with I show "\<exists>i. length h \<le> i \<and> made_by ctor h0 m table h' k i
        \<and> (k \<noteq> ''__proto__'' \<longrightarrow> map_of (own (h' ! table)) k = Some (Ref i))"
      by blast
  qed
  show keys: "fst ` set (own (h' ! table)) = set (own_keys h0 m) - {''__proto__''}"
  proof (intro set_eqI iffI)
    fix k assume "k \<in> fst ` set (own (h' ! table))"
    then have "map_of (own (h' ! table)) k \<noteq> None" by (simp add: map_of_eq_None_iff)
    with none [of k] show "k \<in> set (own_keys h0 m) - {''__proto__''}" by blast
  next
    fix k assume "k \<in> set (own_keys h0 m) - {''__proto__''}"
    with built obtain i where "map_of (own (h' ! table)) k = Some (Ref i)" by blast
    then show "k \<in> fst ` set (own (h' ! table))"
      using map_of_eq_None_iff [of "own (h' ! table)" k] by simp
  qed
  have dist: "distinct (map fst (own (h' ! table)))" using I by (simp add: fresh)
  show "\<forall>k v. (k, v) \<in> set (own (h' ! table)) \<longrightarrow>
        (\<exists>i. v = Ref i \<and> length h \<le> i \<and> made_by ctor h0 m table h' k i)"
  proof (intro allI impI)
    fix k v assume kv: "(k, v) \<in> set (own (h' ! table))"
    then have mv: "map_of (own (h' ! table)) k = Some v" using dist by simp
    from kv have "k \<in> fst ` set (own (h' ! table))" by force
    then have ko: "k \<in> set (own_keys h0 m)" and kp: "k \<noteq> ''__proto__''" using keys by simp_all
    from built ko kp obtain i where "length h \<le> i" "made_by ctor h0 m table h' k i"
      "map_of (own (h' ! table)) k = Some (Ref i)" by blast
    with mv show "\<exists>i. v = Ref i \<and> length h \<le> i \<and> made_by ctor h0 m table h' k i" by auto
  qed
  show "''__proto__'' \<notin> set (own_keys h0 m) \<longrightarrow> inherited (h' ! table) = []"
  proof
    assume "''__proto__'' \<notin> set (own_keys h0 m)"
    then have "\<not> (''__proto__'' \<in> set (for_in_keys h0 m) \<and> has_own_property h0 m ''__proto__'' = Inr True)"
      using vis [of "''__proto__''"] by simp
    with I have "inherited (h' ! table) = inherited (h ! table)" by blast
    then show "inherited (h' ! table) = []" by (simp add: fresh)
  qed
qed

lemma accessor_values:
  "classes [(''_classes'', c), (''_enums'', e), (''_name'', n), (''_description'', d), (''_extras'', x)] = c"
  "enums [(''_classes'', c), (''_enums'', e), (''_name'', n), (''_description'', d), (''_extras'', x)] = e"
  "name [(''_classes'', c), (''_enums'', e), (''_name'', n), (''_description'', d), (''_extras'', x)] = n"
  "description [(''_classes'', c), (''_enums'', e), (''_name'', n), (''_description'', d), (''_extras'', x)] = d"
  "extras [(''_classes'', c), (''_enums'', e), (''_name'', n), (''_description'', d), (''_extras'', x)] = x"
  by (simp_all add: classes_def enums_def name_def description_def extras_def field_def)

text \<open>What a successful run establishes, for a store \<open>h\<close> that keeps a closed store \<open>h0\<close>.\<close>

lemma MetadataSchema_run:
  assumes c: "closed_store h0" and k: "keeps h0 h" and i: "in_store h0 schema"
    and run: "MetadataSchema ME MC stack h schema = Inr (s, h')"
  obtains se sc x h2 h4 where
    "enums s = Ref (length h)" "classes s = Ref (length h2)"
    "length h < length h2" "length h2 < length h4"
    "keeps h h2" "keeps h2 h4" "keeps h4 h'"
    "get_prop h0 schema ''enums'' = Inr se" "get_prop h0 schema ''classes'' = Inr sc"
    "fst ` set (own (h' ! length h)) = set (own_keys h0 se) - {''__proto__''}"
    "fst ` set (own (h' ! length h2)) = set (own_keys h0 sc) - {''__proto__''}"
    "\<forall>k v. (k, v) \<in> set (own (h' ! length h)) \<longrightarrow>
       (\<exists>i. v = Ref i \<and> length h < i \<and> i < length h2
          \<and> made_by (\<lambda>hk kk d. ME hk \<lparr>eo_id = kk, eo_enum = d\<rparr>) h0 se (length h) h' k i)"
    "\<forall>k v. (k, v) \<in> set (own (h' ! length h2)) \<longrightarrow>
       (\<exists>i. v = Ref i \<and> length h2 < i
          \<and> made_by (\<lambda>hk kk d. MC hk \<lparr>co_id = kk, co_class = d, co_enums = Ref (length h)\<rparr>)
                h0 sc (length h2) h' k i)"
    "get_prop h0 schema ''name'' = Inr (name s)"
    "get_prop h0 schema ''description'' = Inr (description s)"
    "get_prop h0 schema ''extras'' = Inr x"
    "clone stack h4 x = Inr (extras s, h')"
    "\<forall>k \<in> set (own_keys h0 se). \<exists>i. length h < i \<and> i < length h2
        \<and> made_by (\<lambda>hk kk d. ME hk \<lparr>eo_id = kk, eo_enum = d\<rparr>) h0 se (length h) h' k i
        \<and> (k \<noteq> ''__proto__'' \<longrightarrow> map_of (own (h' ! length h)) k = Some (Ref i))"
    "\<forall>k \<in> set (own_keys h0 sc). \<exists>i. length h2 < i
        \<and> made_by (\<lambda>hk kk d. MC hk \<lparr>co_id = kk, co_class = d, co_enums = Ref (length h)\<rparr>)
              h0 sc (length h2) h' k i
        \<and> (k \<noteq> ''__proto__'' \<longrightarrow> map_of (own (h' ! length h2)) k = Some (Ref i))"
    "''__proto__'' \<notin> set (own_keys h0 se) \<longrightarrow> inherited (h' ! length h) = []"
    "''__proto__'' \<notin> set (own_keys h0 sc) \<longrightarrow> inherited (h' ! length h2) = []"
proof -
  from run obtain a se h2 sc h4 n dsc x x' where r:
    "schema = Ref a"
    "get_prop (h @ [Obj [] []]) schema ''enums'' = Inr se"
    "enum_loop ME schema (length h) (for_in_keys (h @ [Obj [] []]) se) (h @ [Obj [] []]) = Inr h2"
    "get_prop (h2 @ [Obj [] []]) schema ''classes'' = Inr sc"
    "class_loop MC schema (length h2) (length h) (for_in_keys (h2 @ [Obj [] []]) sc) (h2 @ [Obj [] []]) = Inr h4"
    "get_prop h4 schema ''name'' = Inr n"
    "get_prop h4 schema ''description'' = Inr dsc"
    "get_prop h4 schema ''extras'' = Inr x"
    "clone stack h4 x = Inr (x', h')"
    "s = [(''_classes'', Ref (length h2)), (''_enums'', Ref (length h)), (''_name'', n),
          (''_description'', dsc), (''_extras'', x')]"
    by (rule MetadataSchema_InrE)
  let ?h1 = "h @ [Obj [] []]" and ?h3 = "h2 @ [Obj [] []]"
  let ?E = "\<lambda>hk kk d. ME hk \<lparr>eo_id = kk, eo_enum = d\<rparr>"
  let ?C = "\<lambda>hk kk d. MC hk \<lparr>co_id = kk, co_class = d, co_enums = Ref (length h)\<rparr>"
  have l0: "length h0 \<le> length h" using k by (rule keeps_length)
  have k1: "keeps h0 ?h1" using k by (rule keeps_append)
  have se0: "get_prop h0 schema ''enums'' = Inr se"
    using r(2) keeps_get_prop [OF k1 i] by simp
  have sei: "in_store h0 se" using closed_get_prop [OF c se0] .
  have fe: "for_in_keys ?h1 se = for_in_keys h0 se" using keeps_for_in_keys [OF k1 sei] .
  have e: "table_loop ?E ''enums'' schema (length h) (for_in_keys h0 se) ?h1 = Inr h2"
    using r(3) by (simp add: enum_loop_table fe)
  have t1: "length h < length ?h1" by simp
  have f1: "?h1 ! length h = Obj [] []" by simp
  note E = table_loop_fresh [OF c i l0 se0 e k1 t1 f1]
  have k2: "keeps h0 h2" using E(1) .
  have l2: "length h < length h2" using E(2) by simp
  have kh2: "keeps h h2"
  proof (rule keepsI)
    show "length h \<le> length h2" using l2 by simp
    show "\<forall>a<length h. h2 ! a = h ! a"
    proof (intro allI impI)
      fix a assume a: "a < length h"
      then have "h2 ! a = ?h1 ! a" using E(3) by simp
      then show "h2 ! a = h ! a" using a by (simp add: nth_append)
    qed
  qed
  have k3: "keeps h0 ?h3" using k2 by (rule keeps_append)
  have sc0: "get_prop h0 schema ''classes'' = Inr sc"
    using r(4) keeps_get_prop [OF k3 i] by simp
  have sci: "in_store h0 sc" using closed_get_prop [OF c sc0] .
  have fc: "for_in_keys ?h3 sc = for_in_keys h0 sc" using keeps_for_in_keys [OF k3 sci] .
  have cl: "table_loop ?C ''classes'' schema (length h2) (for_in_keys h0 sc) ?h3 = Inr h4"
    using r(5) by (simp add: class_loop_table fc)
  have l02: "length h0 \<le> length h2" using l0 l2 by simp
  have t3: "length h2 < length ?h3" by simp
  have f3: "?h3 ! length h2 = Obj [] []" by simp
  note C = table_loop_fresh [OF c i l02 sc0 cl k3 t3 f3]
  have k4: "keeps h0 h4" using C(1) .
  have l4: "length h2 < length h4" using C(2) by simp
  have kh4: "keeps h2 h4"
  proof (rule keepsI)
    show "length h2 \<le> length h4" using l4 by simp
    show "\<forall>a<length h2. h4 ! a = h2 ! a"
    proof (intro allI impI)
      fix a assume a: "a < length h2"
      then have "h4 ! a = ?h3 ! a" using C(3) by simp
      then show "h4 ! a = h2 ! a" using a by (simp add: nth_append)
    qed
  qed
  have k45: "keeps h4 h'" using clone_isolated [of stack h4 x x' h'] r(9) by blast
  have k25: "keeps h2 h'" using kh4 k45 by (rule keeps_trans)
  have ct: "h' ! length h2 = h4 ! length h2" using keeps_nth [OF k45 l4] .
  have et: "h' ! length h = h2 ! length h" using keeps_nth [OF k25 l2] .
  have ekeys: "fst ` set (own (h' ! length h)) = set (own_keys h0 se) - {''__proto__''}"
    using E(4) by (simp add: et)
  have ckeys: "fst ` set (own (h' ! length h2)) = set (own_keys h0 sc) - {''__proto__''}"
    using C(4) by (simp add: ct)
  have emade: "\<forall>k v. (k, v) \<in> set (own (h' ! length h)) \<longrightarrow>
       (\<exists>i. v = Ref i \<and> length h < i \<and> i < length h2 \<and> made_by ?E h0 se (length h) h' k i)"
  proof (intro allI impI)
    fix k v assume "(k, v) \<in> set (own (h' ! length h))"
    with E(6) et obtain j where j: "v = Ref j" "length ?h1 \<le> j" "made_by ?E h0 se (length h) h2 k j"
      by auto
    from j(3) have "j < length h2" unfolding made_by_def by blast
    moreover have "made_by ?E h0 se (length h) h' k j" using j(3) k25 by (rule made_by_keeps)
    ultimately show "\<exists>i. v = Ref i \<and> length h < i \<and> i < length h2 \<and> made_by ?E h0 se (length h) h' k i"
      using j(1,2) by auto
  qed
  have cmade: "\<forall>k v. (k, v) \<in> set (own (h' ! length h2)) \<longrightarrow>
       (\<exists>i. v = Ref i \<and> length h2 < i \<and> made_by ?C h0 sc (length h2) h' k i)"
  proof (intro allI impI)
    fix k v assume "(k, v) \<in> set (own (h' ! length h2))"
    with C(6) ct obtain j where j: "v = Ref j" "length ?h3 \<le> j" "made_by ?C h0 sc (length h2) h4 k j"
      by auto
    have "made_by ?C h0 sc (length h2) h' k j" using j(3) k45 by (rule made_by_keeps)
    then show "\<exists>i. v = Ref i \<and> length h2 < i \<and> made_by ?C h0 sc (length h2) h' k i"
      using j(1,2) by auto
  qed
  have ebuilt: "\<forall>k \<in> set (own_keys h0 se). \<exists>i. length h < i \<and> i < length h2
        \<and> made_by ?E h0 se (length h) h' k i
        \<and> (k \<noteq> ''__proto__'' \<longrightarrow> map_of (own (h' ! length h)) k = Some (Ref i))"
  proof
    fix k assume "k \<in> set (own_keys h0 se)"
    with E(5) obtain j where j: "length ?h1 \<le> j" "made_by ?E h0 se (length h) h2 k j"
      "k \<noteq> ''__proto__'' \<longrightarrow> map_of (own (h2 ! length h)) k = Some (Ref j)"
      by blast
    from j(2) have "j < length h2" unfolding made_by_def by blast
    moreover have "made_by ?E h0 se (length h) h' k j" using j(2) k25 by (rule made_by_keeps)
    moreover have "length h < j" using j(1) by simp
    moreover have "k \<noteq> ''__proto__'' \<longrightarrow> map_of (own (h' ! length h)) k = Some (Ref j)"
      using j(3) by (simp add: et)
    ultimately show "\<exists>i. length h < i \<and> i < length h2
        \<and> made_by ?E h0 se (length h) h' k i
        \<and> (k \<noteq> ''__proto__'' \<longrightarrow> map_of (own (h' ! length h)) k = Some (Ref i))"
      by blast
  qed
  have cbuilt: "\<forall>k \<in> set (own_keys h0 sc). \<exists>i. length h2 < i
        \<and> made_by ?C h0 sc (length h2) h' k i
        \<and> (k \<noteq> ''__proto__'' \<longrightarrow> map_of (own (h' ! length h2)) k = Some (Ref i))"
  proof
    fix k assume "k \<in> set (own_keys h0 sc)"
    with C(5) obtain j where j: "length ?h3 \<le> j" "made_by ?C h0 sc (length h2) h4 k j"
      "k \<noteq> ''__proto__'' \<longrightarrow> map_of (own (h4 ! length h2)) k = Some (Ref j)"
      by blast
    have "made_by ?C h0 sc (length h2) h' k j" using j(2) k45 by (rule made_by_keeps)
    moreover have "length h2 < j" using j(1) by simp
    moreover have "k \<noteq> ''__proto__'' \<longrightarrow> map_of (own (h' ! length h2)) k = Some (Ref j)"
      using j(3) by (simp add: ct)
    ultimately show "\<exists>i. length h2 < i
        \<and> made_by ?C h0 sc (length h2) h' k i
        \<and> (k \<noteq> ''__proto__'' \<longrightarrow> map_of (own (h' ! length h2)) k = Some (Ref i))"
      by blast
  qed
  have n0: "get_prop h0 schema ''name'' = Inr (name s)"
    using r(6) keeps_get_prop [OF k4 i] by (simp add: r(10) accessor_values)
  have d0: "get_prop h0 schema ''description'' = Inr (description s)"
    using r(7) keeps_get_prop [OF k4 i] by (simp add: r(10) accessor_values)
  have x0: "get_prop h0 schema ''extras'' = Inr x"
    using r(8) keeps_get_prop [OF k4 i] by simp
  have cx: "clone stack h4 x = Inr (extras s, h')"
    using r(9) by (simp add: r(10) accessor_values)
  have g1: "enums s = Ref (length h)" "classes s = Ref (length h2)"
    by (simp_all add: r(10) accessor_values)
  have ie: "''__proto__'' \<notin> set (own_keys h0 se) \<longrightarrow> inherited (h' ! length h) = []"
    using E(7) by (simp add: et)
  have ic: "''__proto__'' \<notin> set (own_keys h0 sc) \<longrightarrow> inherited (h' ! length h2) = []"
    using C(7) by (simp add: ct)
  from g1 l2 l4 kh2 kh4 k45 se0 sc0 ekeys ckeys emade cmade n0 d0 x0 cx ebuilt cbuilt ie ic
  show thesis by (rule that)
qed


lemma enum_loop_append:
  "enum_loop ME schema etab (ks1 @ ks2) h =
     (case enum_loop ME schema etab ks1 h of Inl e \<Rightarrow> Inl e | Inr hk \<Rightarrow> enum_loop ME schema etab ks2 hk)"
  by (induction ks1 arbitrary: h) (auto split: sum.splits)

lemma class_loop_append:
  "class_loop MC schema ctab etab (ks1 @ ks2) h =
     (case class_loop MC schema ctab etab ks1 h of Inl e \<Rightarrow> Inl e
      | Inr hk \<Rightarrow> class_loop MC schema ctab etab ks2 hk)"
  by (induction ks1 arbitrary: h) (auto split: sum.splits)

lemma map_of_same_shape:
  "(\<forall>d. map (\<lambda>p. (fst p, F d (snd p))) xs = map (\<lambda>p. (fst p, F d (snd p))) ys) \<Longrightarrow>
   rel_option (\<lambda>x y. \<forall>d. F d x = F d y) (map_of xs k) (map_of ys k)"
proof (induction xs arbitrary: ys)
  case Nil
  then show ?case by simp
next
  case (Cons p xs)
  from Cons.prems obtain q ys' where ys: "ys = q # ys'" by (cases ys) auto
  with Cons.prems have hd: "fst p = fst q" "\<forall>d. F d (snd p) = F d (snd q)"
    and tl: "\<forall>d. map (\<lambda>p. (fst p, F d (snd p))) xs = map (\<lambda>p. (fst p, F d (snd p))) ys'"
    by auto
  from Cons.IH [OF tl] hd show ?case
    by (cases p; cases q) (auto simp: ys)
qed

lemma same_shape_get_prop:
  assumes "plain_object h v" "plain_object h w" "same_shape h v w"
    and "get_prop h v k = Inr x" "get_prop h w k = Inr y"
  shows "same_shape h x y"
proof -
  from assms(1) obtain a c where v: "v = Ref a" "lookup h a = Some c" "inherited c = []"
    by (auto simp: plain_object_def split: jsval.splits option.splits)
  from assms(2) obtain b c' where w: "w = Ref b" "lookup h b = Some c'" "inherited c' = []"
    by (auto simp: plain_object_def split: jsval.splits option.splits)
  have "\<forall>d. map (\<lambda>p. (fst p, observe d h (snd p))) (own c)
           = map (\<lambda>p. (fst p, observe d h (snd p))) (own c')"
  proof
    fix d
    from assms(3) have "observe (Suc d) h v = observe (Suc d) h w"
      unfolding same_shape_def by blast
    then show "map (\<lambda>p. (fst p, observe d h (snd p))) (own c)
           = map (\<lambda>p. (fst p, observe d h (snd p))) (own c')"
      by (simp add: v w)
  qed
  from map_of_same_shape [where F = "\<lambda>d. observe d h", OF this, of k]
  have rel: "rel_option (\<lambda>x y. \<forall>d. observe d h x = observe d h y) (map_of (own c) k) (map_of (own c') k)" .
  show ?thesis
  proof (cases "map_of (own c) k")
    case None
    with rel have "map_of (own c') k = None" by (cases "map_of (own c') k") auto
    with None assms(4,5) v w show ?thesis by (simp add: get_prop_def same_shape_def)
  next
    case (Some u)
    with rel obtain u' where u': "map_of (own c') k = Some u'" "\<forall>d. observe d h u = observe d h u'"
      by (cases "map_of (own c') k") auto
    with Some assms(4,5) v w show ?thesis by (simp add: get_prop_def same_shape_def)
  qed
qed

lemma same_shape_own_keys:
  assumes "same_shape h x y"
  shows "own_keys h x = own_keys h y"
proof -
  from assms have o: "observe (Suc 0) h x = observe (Suc 0) h y"
    unfolding same_shape_def by blast
  show ?thesis
  proof (cases x)
    case (Ref a)
    note xa = this
    show ?thesis
    proof (cases y)
      case (Ref b)
      from o xa Ref show ?thesis
        by (cases "lookup h a"; cases "lookup h b")
          (auto simp: own_keys_def dest: arg_cong [where f = "map fst"] simp: comp_def)
    qed (use o xa in \<open>auto simp: own_keys_def split: option.splits\<close>)
  qed (use o in \<open>cases y; auto simp: own_keys_def split: option.splits\<close>)+
qed

text \<open>
  The tables of a constructed Schema, read in any later store: each has the own enumerable
  names of the input's mapping except \<open>__proto__\<close>, and holds instances allocated by this
  construction.
\<close>

lemma run_later_store:
  assumes c: "closed_store h0" and k: "keeps h0 h" and i: "in_store h0 schema"
    and run: "MetadataSchema ME MC stack h schema = Inr (this, h')"
    and kx: "keeps h' hx"
  shows "\<exists>se sc x. get_prop h0 schema ''enums'' = Inr se \<and> get_prop h0 schema ''classes'' = Inr sc
     \<and> get_prop h0 schema ''extras'' = Inr x
     \<and> set (own_keys hx (enums this)) = set (own_keys h0 se) - {''__proto__''}
     \<and> set (own_keys hx (classes this)) = set (own_keys h0 sc) - {''__proto__''}
     \<and> (\<forall>v \<in> set (instances hx this). \<exists>i. v = Ref i \<and> length h < i \<and> i < length h')
     \<and> (\<forall>d. observe d hx (extras this) = observe d h0 x)"
proof -
  let ?E = "\<lambda>hk kk d. ME hk \<lparr>eo_id = kk, eo_enum = d\<rparr>"
  let ?C = "\<lambda>hk kk d. MC hk \<lparr>co_id = kk, co_class = d, co_enums = Ref (length h)\<rparr>"
  from c k i run obtain se sc x h2 h4 where r:
    "enums this = Ref (length h)" "classes this = Ref (length h2)"
    "length h < length h2" "length h2 < length h4"
    "keeps h h2" "keeps h2 h4" "keeps h4 h'"
    "get_prop h0 schema ''enums'' = Inr se" "get_prop h0 schema ''classes'' = Inr sc"
    "fst ` set (own (h' ! length h)) = set (own_keys h0 se) - {''__proto__''}"
    "fst ` set (own (h' ! length h2)) = set (own_keys h0 sc) - {''__proto__''}"
    "\<forall>k v. (k, v) \<in> set (own (h' ! length h)) \<longrightarrow>
       (\<exists>i. v = Ref i \<and> length h < i \<and> i < length h2 \<and> made_by ?E h0 se (length h) h' k i)"
    "\<forall>k v. (k, v) \<in> set (own (h' ! length h2)) \<longrightarrow>
       (\<exists>i. v = Ref i \<and> length h2 < i \<and> made_by ?C h0 sc (length h2) h' k i)"
    and x: "get_prop h0 schema ''extras'' = Inr x" "clone stack h4 x = Inr (extras this, h')"
    by (rule MetadataSchema_run)
  have l: "length h4 \<le> length h'" using r(7) by (rule keeps_length)
  have lx: "length h' \<le> length hx" using kx by (rule keeps_length)
  have ct: "hx ! length h2 = h' ! length h2" using keeps_nth [OF kx, of "length h2"] r(4) l by simp
  have et: "hx ! length h = h' ! length h" using keeps_nth [OF kx, of "length h"] r(3,4) l by simp
  have lc: "lookup hx (length h2) = Some (h' ! length h2)"
    using ct r(4) l lx by (simp add: lookup_def)
  have le: "lookup hx (length h) = Some (h' ! length h)"
    using et r(3,4) l lx by (simp add: lookup_def)
  have E: "set (own_keys hx (enums this)) = set (own_keys h0 se) - {''__proto__''}"
    using le r(10) by (simp add: r(1) own_keys_def)
  have C: "set (own_keys hx (classes this)) = set (own_keys h0 sc) - {''__proto__''}"
    using lc r(11) by (simp add: r(2) own_keys_def)
  have I: "\<forall>v \<in> set (instances hx this). \<exists>i. v = Ref i \<and> length h < i \<and> i < length h'"
  proof
    fix v assume "v \<in> set (instances hx this)"
    then consider (e) kk where "(kk, v) \<in> set (own (h' ! length h))"
      | (c) kk where "(kk, v) \<in> set (own (h' ! length h2))"
      using le lc by (auto simp: instances_def table_values_def r(1,2))
    then show "\<exists>i. v = Ref i \<and> length h < i \<and> i < length h'"
    proof cases
      case e
      with r(12) obtain j where "v = Ref j" "length h < j" "j < length h2" by blast
      then show ?thesis using r(4) l by auto
    next
      case c
      with r(13) obtain j where "v = Ref j" "length h2 < j" "made_by ?C h0 sc (length h2) h' kk j"
        by blast
      then show ?thesis using r(3) unfolding made_by_def by auto
    qed
  qed
  have k04: "keeps h0 h4" using keeps_trans [OF k keeps_trans [OF r(5,6)]] .
  have xi: "in_store h0 x" using closed_get_prop [OF c x(1)] .
  have X: "\<forall>d. observe d hx (extras this) = observe d h0 x"
  proof
    fix d
    have "observe d h' (extras this) = observe d h0 x"
      using clone_copy [OF c] x(2) k04 xi by blast
    moreover have "observe d hx (extras this) = observe d h' (extras this)"
      using clone_isolated x(2) keeps_same_above [OF kx] by blast
    ultimately show "observe d hx (extras this) = observe d h0 x" by simp
  qed
  from r(8,9) x(1) E C I X show ?thesis by blast
qed

section \<open>The accessors: lemmas\<close>

lemma accessor_names_eq:
  "accessor_names = [''classes'', ''enums'', ''name'', ''description'', ''extras'']"
  by (simp add: accessor_names_def MetadataSchema_prototype_def)

lemma names_disjoint: "set accessor_names \<inter> set backing_fields = {}"
  unfolding accessor_names_eq backing_fields_def by code_simp

lemma prototype_lookup:
  "map_of MetadataSchema_prototype ''classes'' = Some \<lparr>getter = Some classes, setter = None\<rparr>"
  "map_of MetadataSchema_prototype ''enums'' = Some \<lparr>getter = Some enums, setter = None\<rparr>"
  "map_of MetadataSchema_prototype ''name'' = Some \<lparr>getter = Some name, setter = None\<rparr>"
  "map_of MetadataSchema_prototype ''description'' = Some \<lparr>getter = Some description, setter = None\<rparr>"
  "map_of MetadataSchema_prototype ''extras'' = Some \<lparr>getter = Some extras, setter = None\<rparr>"
  by (simp_all add: MetadataSchema_prototype_def)

lemma constructed_keys:
  assumes "MetadataSchema ME MC stack h schema = Inr (this, h')"
  shows "map fst this = backing_fields"
proof -
  from assms obtain c e n d x where
    "this = [(''_classes'', c), (''_enums'', e), (''_name'', n), (''_description'', d), (''_extras'', x)]"
    by (rule MetadataSchema_InrE)
  then show ?thesis by (simp add: backing_fields_def)
qed

lemma map_of_None_if: "k \<notin> set (map fst al) \<Longrightarrow> map_of al k = None"
  by (simp add: map_of_eq_None_iff)

lemma get_member_accessor:
  assumes "map_of this k = None" "map_of MetadataSchema_prototype k = Some \<lparr>getter = Some g, setter = None\<rparr>"
  shows "get_member hx (new_schema_object this) k = Value (g this)"
    "set_member True hx (new_schema_object this) k v = Inl TypeError"
    "set_member False hx (new_schema_object this) k v = Inr (new_schema_object this)"
  using assms by (simp_all add: get_member_def set_member_def new_schema_object_def)

lemma set_member_new_property:
  assumes "map_of this k = None" "map_of MetadataSchema_prototype k = None" "k \<noteq> ''__proto__''"
  shows "set_member strict hx (new_schema_object this) k v = Inr (new_schema_object (AList.update k v this))"
  using assms by (simp add: set_member_def new_schema_object_def)

lemma accessor_names_cases:
  assumes "a \<in> set accessor_names"
  obtains "a = ''classes''" | "a = ''enums''" | "a = ''name''" | "a = ''description''" | "a = ''extras''"
proof -
  from assms have "a = ''classes'' \<or> a = ''enums'' \<or> a = ''name'' \<or> a = ''description'' \<or> a = ''extras''"
    by (simp only: accessor_names_eq list.set insert_iff empty_iff simp_thms)
  then show thesis using that by (elim disjE)
qed

lemma field_update_other: "b \<noteq> k \<Longrightarrow> field (AList.update k v this) b = field this b"
  by (simp add: field_def AList.update_conv')

lemma backing_fields_mem:
  "''_classes'' \<in> set backing_fields" "''_enums'' \<in> set backing_fields" "''_name'' \<in> set backing_fields"
  "''_description'' \<in> set backing_fields" "''_extras'' \<in> set backing_fields"
  by (simp_all add: backing_fields_def)

lemma getters_update_other:
  assumes "k \<notin> set backing_fields"
  shows "classes (AList.update k v this) = classes this"
    "enums (AList.update k v this) = enums this"
    "name (AList.update k v this) = name this"
    "description (AList.update k v this) = description this"
    "extras (AList.update k v this) = extras this"
proof -
  have ne: "b \<noteq> k" if "b \<in> set backing_fields" for b using assms that by (rule_tac notI) simp
  show "classes (AList.update k v this) = classes this"
    unfolding classes_def by (rule field_update_other [OF ne [OF backing_fields_mem(1)]])
  show "enums (AList.update k v this) = enums this"
    unfolding enums_def by (rule field_update_other [OF ne [OF backing_fields_mem(2)]])
  show "name (AList.update k v this) = name this"
    unfolding name_def by (rule field_update_other [OF ne [OF backing_fields_mem(3)]])
  show "description (AList.update k v this) = description this"
    unfolding description_def by (rule field_update_other [OF ne [OF backing_fields_mem(4)]])
  show "extras (AList.update k v this) = extras this"
    unfolding extras_def by (rule field_update_other [OF ne [OF backing_fields_mem(5)]])
qed

section \<open>The sample input: lemmas\<close>

lemma example_run:
  "MetadataSchema example_MetadataEnum example_MetadataClass 3 example_store (Ref 0)
     = Inr (example_this, example_store_after)"
  by code_simp

lemma example_closed: "closed_store example_store"
  by code_simp

lemma example_run2:
  "MetadataSchema example_MetadataEnum example_MetadataClass 3 example_store_after (Ref 7)
     = Inr (example_this2, example_store_after2)"
  by code_simp

lemma proto_key_run:
  "MetadataSchema example_MetadataEnum example_MetadataClass 0 proto_key_store (Ref 0)
     = Inr (proto_key_this, proto_key_store_after)"
  by code_simp

text \<open>
  An enum named \<open>hasOwnProperty\<close> hides the function that the guard of the loop calls:
  the construction throws a TypeError.
\<close>

lemma hasOwnProperty_key_throws:
  "MetadataSchema example_MetadataEnum example_MetadataClass 0 hasOwnProperty_key_store (Ref 0)
     = Inl TypeError"
  by code_simp

lemma example_same_shape: "same_shape example_store (Ref 0) (Ref 7)"
  unfolding same_shape_def
proof
  fix d
  show "observe d example_store (Ref 0) = observe d example_store (Ref 7)"
  proof (cases d)
    case 0
    then show ?thesis by simp
  next
    case (Suc d1)
    then show ?thesis
    proof (cases d1)
      case 0
      with Suc show ?thesis by (simp add: example_store_def lookup_def)
    next
      case (Suc d2)
      note d1 = this
      show ?thesis
      proof (cases d2)
        case 0
        with d1 \<open>d = Suc d1\<close> show ?thesis by (simp add: example_store_def lookup_def observe_leaf)
      next
        case (Suc d3)
        note d2 = this
        show ?thesis
        proof (cases d3)
          case 0
          with d2 d1 \<open>d = Suc d1\<close> show ?thesis
            by (simp add: example_store_def lookup_def observe_leaf)
        next
          case (Suc d4)
          with d2 d1 \<open>d = Suc d1\<close> show ?thesis
            by (simp add: example_store_def lookup_def observe_leaf)
        qed
      qed
    qed
  qed
qed

section \<open>Results for MetadataSchema\<close>

text \<open>
  C1. The tables do not always have exactly the names of the input's mappings. For the
  schema parsed from \<open>{"enums": {"__proto__": {}, "x": {}}}\<close> the construction returns a
  Schema; the input's enum mapping has the own names \<open>__proto__\<close> and \<open>x\<close>, but the
  Schema's enum table has the single name \<open>x\<close>. The assignment
  \<open>enums[enumId] = new MetadataEnum(...)\<close> for the name \<open>__proto__\<close> has made the new
  Enum the prototype of the table, through which the table now sees the Enum's property
  \<open>_id\<close>, instead of an entry.
\<close>

theorem proto_key_gets_no_entry:
  "MetadataSchema example_MetadataEnum example_MetadataClass 0 proto_key_store (Ref 0)
     = Inr (proto_key_this, proto_key_store_after)
   \<and> get_prop proto_key_store (Ref 0) ''enums'' = Inr (Ref 1)
   \<and> own_keys proto_key_store (Ref 1) = [''__proto__'', ''x'']
   \<and> own_keys proto_key_store_after (enums proto_key_this) = [''x'']
   \<and> inherited_keys proto_key_store_after (enums proto_key_this) = [''_id'']"
proof -
  have 1: "get_prop proto_key_store (Ref 0) ''enums'' = Inr (Ref 1)" by code_simp
  have 2: "own_keys proto_key_store (Ref 1) = [''__proto__'', ''x'']" by code_simp
  have 3: "own_keys proto_key_store_after (enums proto_key_this) = [''x'']" by code_simp
  have 4: "inherited_keys proto_key_store_after (enums proto_key_this) = [''_id'']" by code_simp
  show ?thesis by (intro conjI) (rule proto_key_run 1 2 3 4)+
qed

text \<open>
  For every other name the tables follow the input. When the construction from a value of
  a closed store returns a Schema, the object that \<open>classes\<close> returns has the own
  enumerable property names of \<open>schema.classes\<close> except \<open>__proto__\<close>, and the object
  that \<open>enums\<close> returns those of \<open>schema.enums\<close> except \<open>__proto__\<close>; a table of a
  mapping without that name sees no enumerable name through its prototype; and when a
  field is absent (\<open>undefined\<close>) the corresponding table has no property.
\<close>

lemma schema_tables_keys:
  assumes "closed_store h" "in_store h schema"
    and "MetadataSchema MetadataEnum MetadataClass stack h schema = Inr (this, h')"
  shows "\<exists>sc se. get_prop h schema ''classes'' = Inr sc \<and> get_prop h schema ''enums'' = Inr se
     \<and> set (own_keys h' (classes this)) = set (own_keys h sc) - {''__proto__''}
     \<and> set (own_keys h' (enums this)) = set (own_keys h se) - {''__proto__''}
     \<and> (''__proto__'' \<notin> set (own_keys h sc) \<longrightarrow> inherited_keys h' (classes this) = [])
     \<and> (''__proto__'' \<notin> set (own_keys h se) \<longrightarrow> inherited_keys h' (enums this) = [])
     \<and> (sc = Undefined \<longrightarrow> own_keys h' (classes this) = [])
     \<and> (se = Undefined \<longrightarrow> own_keys h' (enums this) = [])"
proof -
  from assms(1) keeps_refl assms(2,3) obtain se sc and x :: jsval and h2 h4 where r:
    "enums this = Ref (length h)" "classes this = Ref (length h2)"
    "length h < length h2" "length h2 < length h4"
    "keeps h h2" "keeps h2 h4" "keeps h4 h'"
    "get_prop h schema ''enums'' = Inr se" "get_prop h schema ''classes'' = Inr sc"
    "fst ` set (own (h' ! length h)) = set (own_keys h se) - {''__proto__''}"
    "fst ` set (own (h' ! length h2)) = set (own_keys h sc) - {''__proto__''}"
    and ih: "''__proto__'' \<notin> set (own_keys h se) \<longrightarrow> inherited (h' ! length h) = []"
      "''__proto__'' \<notin> set (own_keys h sc) \<longrightarrow> inherited (h' ! length h2) = []"
    by (rule MetadataSchema_run)
  have l: "length h4 \<le> length h'" using r(7) by (rule keeps_length)
  have lc: "lookup h' (length h2) = Some (h' ! length h2)" using r(4) l by (simp add: lookup_def)
  have le: "lookup h' (length h) = Some (h' ! length h)" using r(3,4) l by (simp add: lookup_def)
  have C: "set (own_keys h' (classes this)) = set (own_keys h sc) - {''__proto__''}"
    using lc r(11) by (simp add: r(2) own_keys_def)
  have E: "set (own_keys h' (enums this)) = set (own_keys h se) - {''__proto__''}"
    using le r(10) by (simp add: r(1) own_keys_def)
  have IC: "''__proto__'' \<notin> set (own_keys h sc) \<longrightarrow> inherited_keys h' (classes this) = []"
    using lc ih(2) by (simp add: r(2) inherited_keys_def)
  have IE: "''__proto__'' \<notin> set (own_keys h se) \<longrightarrow> inherited_keys h' (enums this) = []"
    using le ih(1) by (simp add: r(1) inherited_keys_def)
  have UC: "sc = Undefined \<longrightarrow> own_keys h' (classes this) = []"
  proof
    assume "sc = Undefined"
    then have "own_keys h sc = []" by (simp add: own_keys_def)
    with C show "own_keys h' (classes this) = []" by simp
  qed
  have UE: "se = Undefined \<longrightarrow> own_keys h' (enums this) = []"
  proof
    assume "se = Undefined"
    then have "own_keys h se = []" by (simp add: own_keys_def)
    with E show "own_keys h' (enums this) = []" by simp
  qed
  show ?thesis by (intro exI conjI) (rule r(9) r(8) C E IC IE UC UE)+
qed





text \<open>
  C4. For \<open>null\<close>, \<open>undefined\<close>, a boolean, a number or a string the construction throws the
  InvalidArgument error of the argument check, whatever the constructors and the store
  are; no Schema is returned.
\<close>

theorem MetadataSchema_rejects_non_object:
  "MetadataSchema MetadataEnum MetadataClass stack h Null = Inl (InvalidArgument ''schema'')
   \<and> MetadataSchema MetadataEnum MetadataClass stack h Undefined = Inl (InvalidArgument ''schema'')
   \<and> MetadataSchema MetadataEnum MetadataClass stack h (Bool b) = Inl (InvalidArgument ''schema'')
   \<and> MetadataSchema MetadataEnum MetadataClass stack h (Num x) = Inl (InvalidArgument ''schema'')
   \<and> MetadataSchema MetadataEnum MetadataClass stack h (Str t) = Inl (InvalidArgument ''schema'')"
  by (simp add: MetadataSchema_def Check_typeOf_object_def)

text \<open>
  Without the argument check, the first property read still throws for \<open>null\<close> and
  \<open>undefined\<close>, as a TypeError.
\<close>

lemma MetadataSchema_body_null_undefined:
  "MetadataSchema_body MetadataEnum MetadataClass stack h Null = Inl TypeError
   \<and> MetadataSchema_body MetadataEnum MetadataClass stack h Undefined = Inl TypeError"
  by (simp add: MetadataSchema_body_def alloc_def get_prop_def)

text \<open>
  C5. When either loop reaches a call of the Enum or Class constructor that throws \<open>e\<close>, the
  construction throws the same \<open>e\<close> and returns no Schema.
\<close>

theorem construction_failure_propagates:
  assumes "enum_pass_throws MetadataEnum h (Ref a) e
           \<or> class_pass_throws MetadataEnum MetadataClass h (Ref a) e"
  shows "MetadataSchema MetadataEnum MetadataClass stack h (Ref a) = Inl e"
  using assms
proof
  assume "enum_pass_throws MetadataEnum h (Ref a) e"
  then obtain se ks1 k ks2 hk m d where r:
    "get_prop (h @ [Obj [] []]) (Ref a) ''enums'' = Inr se"
    "for_in_keys (h @ [Obj [] []]) se = ks1 @ k # ks2"
    "enum_loop MetadataEnum (Ref a) (length h) ks1 (h @ [Obj [] []]) = Inr hk"
    "get_prop hk (Ref a) ''enums'' = Inr m"
    "has_own_property hk m k = Inr True"
    "get_prop hk m k = Inr d"
    "MetadataEnum hk \<lparr>eo_id = k, eo_enum = d\<rparr> = Inl e"
    unfolding enum_pass_throws_def by blast
  have "enum_loop MetadataEnum (Ref a) (length h) (k # ks2) hk = Inl e"
    using r(4-7) by (simp add: new_def)
  then have "enum_loop MetadataEnum (Ref a) (length h) (ks1 @ k # ks2) (h @ [Obj [] []]) = Inl e"
    using r(3) by (simp add: enum_loop_append)
  then show ?thesis
    using r(1,2)
    by (simp add: MetadataSchema_def MetadataSchema_body_def Check_typeOf_object_def alloc_def)
next
  assume "class_pass_throws MetadataEnum MetadataClass h (Ref a) e"
  then obtain se h2 sc ks1 k ks2 hk m d where r:
    "get_prop (h @ [Obj [] []]) (Ref a) ''enums'' = Inr se"
    "enum_loop MetadataEnum (Ref a) (length h) (for_in_keys (h @ [Obj [] []]) se) (h @ [Obj [] []])
          = Inr h2"
    "get_prop (h2 @ [Obj [] []]) (Ref a) ''classes'' = Inr sc"
    "for_in_keys (h2 @ [Obj [] []]) sc = ks1 @ k # ks2"
    "class_loop MetadataClass (Ref a) (length h2) (length h) ks1 (h2 @ [Obj [] []]) = Inr hk"
    "get_prop hk (Ref a) ''classes'' = Inr m"
    "has_own_property hk m k = Inr True"
    "get_prop hk m k = Inr d"
    "MetadataClass hk \<lparr>co_id = k, co_class = d, co_enums = Ref (length h)\<rparr> = Inl e"
    unfolding class_pass_throws_def by blast
  have "class_loop MetadataClass (Ref a) (length h2) (length h) (k # ks2) hk = Inl e"
    using r(6-9) by (simp add: new_def)
  then have "class_loop MetadataClass (Ref a) (length h2) (length h) (ks1 @ k # ks2) (h2 @ [Obj [] []]) = Inl e"
    using r(5) by (simp add: class_loop_append)
  then show ?thesis
    using r(1-4)
    by (simp add: MetadataSchema_def MetadataSchema_body_def Check_typeOf_object_def alloc_def)
qed

theorem construction_failure_propagates_witness:
  "class_pass_throws example_MetadataEnum example_MetadataClass example_store (Ref 14)
     (Thrown (Str ''genus''))
   \<and> MetadataSchema example_MetadataEnum example_MetadataClass 3 example_store (Ref 14)
       = Inl (Thrown (Str ''genus''))"
proof -
  let ?h1 = "example_store @ [Obj [] []]"
  let ?h3 = "example_store @ [Obj [] []] @ [Obj [] []]"
  have 1: "get_prop ?h1 (Ref 14) ''enums'' = Inr Undefined" by code_simp
  have 2: "enum_loop example_MetadataEnum (Ref 14) (length example_store) (for_in_keys ?h1 Undefined) ?h1
             = Inr ?h1" by code_simp
  have 3: "get_prop (?h1 @ [Obj [] []]) (Ref 14) ''classes'' = Inr (Ref 15)" by code_simp
  have 4: "for_in_keys (?h1 @ [Obj [] []]) (Ref 15) = [] @ ''tree'' # []" by code_simp
  have 5: "class_loop example_MetadataClass (Ref 14) (length ?h1) (length example_store) []
             (?h1 @ [Obj [] []]) = Inr (?h1 @ [Obj [] []])" by simp
  have 6: "has_own_property (?h1 @ [Obj [] []]) (Ref 15) ''tree'' = Inr True" by code_simp
  have 7: "get_prop (?h1 @ [Obj [] []]) (Ref 15) ''tree'' = Inr (Ref 16)" by code_simp
  have 8: "example_MetadataClass (?h1 @ [Obj [] []])
             \<lparr>co_id = ''tree'', co_class = Ref 16, co_enums = Ref (length example_store)\<rparr>
           = Inl (Thrown (Str ''genus''))" by code_simp
  have c: "class_pass_throws example_MetadataEnum example_MetadataClass example_store (Ref 14)
     (Thrown (Str ''genus''))"
    unfolding class_pass_throws_def using 1 2 3 4 5 6 7 8 by blast
  then have "enum_pass_throws example_MetadataEnum example_store (Ref 14) (Thrown (Str ''genus''))
           \<or> class_pass_throws example_MetadataEnum example_MetadataClass example_store (Ref 14)
                (Thrown (Str ''genus''))" by simp
  from c construction_failure_propagates [OF this, of 3] show ?thesis by simp
qed

text \<open>
  C6, in the form that holds. A constructed Schema has exactly five accessors, \<open>classes\<close>,
  \<open>enums\<close>, \<open>name\<close>, \<open>description\<close> and \<open>extras\<close>, each with a getter and no setter.
  Reading one returns the corresponding underscore field. An assignment through any of the
  five names changes nothing: it throws a TypeError when the assigning code is strict and
  is ignored otherwise. A successful assignment to any name other than the five underscore
  fields and \<open>__proto__\<close> leaves what all five accessors return unchanged.
\<close>

theorem accessors_are_read_only:
  assumes "MetadataSchema MetadataEnum MetadataClass stack h schema = Inr (this, h')"
  shows "accessor_names = [''classes'', ''enums'', ''name'', ''description'', ''extras'']
     \<and> list_all (\<lambda>p. getter (snd p) \<noteq> None \<and> setter (snd p) = None) MetadataSchema_prototype
     \<and> get_member hx (new_schema_object this) ''classes'' = Value (classes this)
     \<and> get_member hx (new_schema_object this) ''enums'' = Value (enums this)
     \<and> get_member hx (new_schema_object this) ''name'' = Value (name this)
     \<and> get_member hx (new_schema_object this) ''description'' = Value (description this)
     \<and> get_member hx (new_schema_object this) ''extras'' = Value (extras this)
     \<and> (\<forall>k v. k \<in> set accessor_names \<longrightarrow>
           set_member True hx (new_schema_object this) k v = Inl TypeError
           \<and> set_member False hx (new_schema_object this) k v = Inr (new_schema_object this))
     \<and> (\<forall>strict k v s'. k \<notin> set backing_fields \<and> k \<noteq> ''__proto__''
             \<and> set_member strict hx (new_schema_object this) k v = Inr s' \<longrightarrow>
           (\<forall>a \<in> set accessor_names. get_member hx s' a = get_member hx (new_schema_object this) a))"
proof -
  note keys = constructed_keys [OF assms]
  have none: "map_of this k = None" if "k \<in> set accessor_names" for k
  proof (rule map_of_None_if)
    have "k \<notin> set backing_fields" using that names_disjoint by (rule_tac notI) (simp add: disjoint_iff)
    then show "k \<notin> set (map fst this)" unfolding keys .
  qed
  have A: "list_all (\<lambda>p. getter (snd p) \<noteq> None \<and> setter (snd p) = None) MetadataSchema_prototype"
    by (simp add: MetadataSchema_prototype_def)
  have mem: "''classes'' \<in> set accessor_names" "''enums'' \<in> set accessor_names"
    "''name'' \<in> set accessor_names" "''description'' \<in> set accessor_names"
    "''extras'' \<in> set accessor_names"
    by (simp_all add: accessor_names_eq)
  note G1 = get_member_accessor [OF none [OF mem(1)] prototype_lookup(1)]
  note G2 = get_member_accessor [OF none [OF mem(2)] prototype_lookup(2)]
  note G3 = get_member_accessor [OF none [OF mem(3)] prototype_lookup(3)]
  note G4 = get_member_accessor [OF none [OF mem(4)] prototype_lookup(4)]
  note G5 = get_member_accessor [OF none [OF mem(5)] prototype_lookup(5)]
  have S: "\<forall>k v. k \<in> set accessor_names \<longrightarrow>
           set_member True hx (new_schema_object this) k v = Inl TypeError
           \<and> set_member False hx (new_schema_object this) k v = Inr (new_schema_object this)"
  proof (intro allI impI)
    fix k v assume k: "k \<in> set accessor_names"
    then show "set_member True hx (new_schema_object this) k v = Inl TypeError
           \<and> set_member False hx (new_schema_object this) k v = Inr (new_schema_object this)"
    proof (cases rule: accessor_names_cases)
      case 1 then show ?thesis by (simp only: G1(2,3) simp_thms)
    next
      case 2 then show ?thesis by (simp only: G2(2,3) simp_thms)
    next
      case 3 then show ?thesis by (simp only: G3(2,3) simp_thms)
    next
      case 4 then show ?thesis by (simp only: G4(2,3) simp_thms)
    next
      case 5 then show ?thesis by (simp only: G5(2,3) simp_thms)
    qed
  qed
  have F: "\<forall>strict k v s'. k \<notin> set backing_fields \<and> k \<noteq> ''__proto__''
             \<and> set_member strict hx (new_schema_object this) k v = Inr s' \<longrightarrow>
           (\<forall>a \<in> set accessor_names. get_member hx s' a = get_member hx (new_schema_object this) a)"
  proof (intro allI impI ballI)
    fix strict k v s' a
    assume kv: "k \<notin> set backing_fields \<and> k \<noteq> ''__proto__''
             \<and> set_member strict hx (new_schema_object this) k v = Inr s'"
      and a: "a \<in> set accessor_names"
    from kv have kb: "k \<notin> set backing_fields" and kp: "k \<noteq> ''__proto__''"
      and sm: "set_member strict hx (new_schema_object this) k v = Inr s'" by simp_all
    show "get_member hx s' a = get_member hx (new_schema_object this) a"
    proof (cases "k \<in> set accessor_names")
      case True
      with S have s: "set_member True hx (new_schema_object this) k v = Inl TypeError"
        "set_member False hx (new_schema_object this) k v = Inr (new_schema_object this)"
        by simp_all
      from sm s have "s' = new_schema_object this" by (cases strict) simp_all
      then show ?thesis by simp
    next
      case False
      have k1: "map_of this k = None" using kb unfolding keys [symmetric] by (rule map_of_None_if)
      from False have k2: "map_of MetadataSchema_prototype k = None"
        by (simp add: accessor_names_def map_of_eq_None_iff)
      from sm set_member_new_property [OF k1 k2 kp, of strict hx v]
      have t: "s' = new_schema_object (AList.update k v this)" by simp
      have ak: "a \<noteq> k" using a False by (rule_tac notI) simp
      have n': "map_of (AList.update k v this) a = None"
        using none [OF a] ak by (simp add: AList.update_conv')
      note U = getters_update_other [OF kb, of v this]
      from a show ?thesis
      proof (cases rule: accessor_names_cases)
        case 1
        with n' have "map_of (AList.update k v this) ''classes'' = None" by simp
        from get_member_accessor(1) [OF this prototype_lookup(1)] G1(1) U(1) 1 t show ?thesis by simp
      next
        case 2
        with n' have "map_of (AList.update k v this) ''enums'' = None" by simp
        from get_member_accessor(1) [OF this prototype_lookup(2)] G2(1) U(2) 2 t show ?thesis by simp
      next
        case 3
        with n' have "map_of (AList.update k v this) ''name'' = None" by simp
        from get_member_accessor(1) [OF this prototype_lookup(3)] G3(1) U(3) 3 t show ?thesis by simp
      next
        case 4
        with n' have "map_of (AList.update k v this) ''description'' = None" by simp
        from get_member_accessor(1) [OF this prototype_lookup(4)] G4(1) U(4) 4 t show ?thesis by simp
      next
        case 5
        with n' have "map_of (AList.update k v this) ''extras'' = None" by simp
        from get_member_accessor(1) [OF this prototype_lookup(5)] G5(1) U(5) 5 t show ?thesis by simp
      qed
    qed
  qed
  show ?thesis
    by (intro conjI) (rule accessor_names_eq A G1(1) G2(1) G3(1) G4(1) G5(1) S F)+
qed

theorem accessors_are_read_only_witness:
  "MetadataSchema example_MetadataEnum example_MetadataClass 3 example_store (Ref 0)
     = Inr (example_this, example_store_after)
   \<and> get_member example_store_after (new_schema_object example_this) ''name'' = Value (Str ''trees'')
   \<and> set_member True example_store_after (new_schema_object example_this) ''name'' (Str ''oaks'')
       = Inl TypeError
   \<and> set_member False example_store_after (new_schema_object example_this) ''name'' (Str ''oaks'')
       = Inr (new_schema_object example_this)
   \<and> ''comment'' \<notin> set backing_fields \<and> ''comment'' \<noteq> ''__proto__''
   \<and> set_member True example_store_after (new_schema_object example_this) ''comment'' (Str ''c'')
       = Inr (new_schema_object (example_this @ [(''comment'', Str ''c'')]))
   \<and> get_member example_store_after (new_schema_object (example_this @ [(''comment'', Str ''c'')])) ''name''
       = Value (Str ''trees'')"
proof -
  let ?s = "new_schema_object example_this"
  let ?s' = "new_schema_object (example_this @ [(''comment'', Str ''c'')])"
  note t = accessors_are_read_only [OF example_run, of example_store_after]
  have n: "''name'' \<in> set accessor_names" by (simp add: accessor_names_eq)
  have c: "''comment'' \<notin> set backing_fields" by (simp add: backing_fields_def)
  have p: "''comment'' \<noteq> ''__proto__''" by simp
  have s: "set_member True example_store_after ?s ''comment'' (Str ''c'') = Inr ?s'"
    by code_simp
  have g: "get_member example_store_after ?s ''name'' = Value (Str ''trees'')" by code_simp
  from t have S: "\<forall>k v. k \<in> set accessor_names \<longrightarrow>
           set_member True example_store_after ?s k v = Inl TypeError
           \<and> set_member False example_store_after ?s k v = Inr ?s"
    and F: "\<forall>strict k v s'. k \<notin> set backing_fields \<and> k \<noteq> ''__proto__''
             \<and> set_member strict example_store_after ?s k v = Inr s' \<longrightarrow>
           (\<forall>a \<in> set accessor_names. get_member example_store_after s' a = get_member example_store_after ?s a)"
    by simp_all
  from S n have 1: "set_member True example_store_after ?s ''name'' (Str ''oaks'') = Inl TypeError"
    and 2: "set_member False example_store_after ?s ''name'' (Str ''oaks'') = Inr ?s" by simp_all
  from F c p s have "\<forall>a \<in> set accessor_names.
      get_member example_store_after ?s' a = get_member example_store_after ?s a"
    by blast
  with n g have 3: "get_member example_store_after ?s' ''name'' = Value (Str ''trees'')"
    by simp
  show ?thesis by (intro conjI) (rule example_run g 1 2 c p s 3)+
qed

text \<open>
  The underscore fields themselves are ordinary writable properties of the instance:
  assigning \<open>_name\<close> changes what \<open>name\<close> returns, without a new construction.
\<close>

theorem backing_field_write_counterexample:
  "MetadataSchema example_MetadataEnum example_MetadataClass 3 example_store (Ref 0)
     = Inr (example_this, example_store_after)
   \<and> get_member example_store_after (new_schema_object example_this) ''name'' = Value (Str ''trees'')
   \<and> set_member True example_store_after (new_schema_object example_this) ''_name'' (Str ''oaks'')
       = Inr (new_schema_object
                [(''_classes'', Ref 19), (''_enums'', Ref 17), (''_name'', Str ''oaks''),
                 (''_description'', Undefined), (''_extras'', Ref 22)])
   \<and> get_member example_store_after
        (new_schema_object
           [(''_classes'', Ref 19), (''_enums'', Ref 17), (''_name'', Str ''oaks''),
            (''_description'', Undefined), (''_extras'', Ref 22)]) ''name''
       = Value (Str ''oaks'')"
proof -
  have a: "get_member example_store_after (new_schema_object example_this) ''name'' = Value (Str ''trees'')"
    by code_simp
  have b: "set_member True example_store_after (new_schema_object example_this) ''_name'' (Str ''oaks'')
       = Inr (new_schema_object
                [(''_classes'', Ref 19), (''_enums'', Ref 17), (''_name'', Str ''oaks''),
                 (''_description'', Undefined), (''_extras'', Ref 22)])" by code_simp
  have c: "get_member example_store_after
        (new_schema_object
           [(''_classes'', Ref 19), (''_enums'', Ref 17), (''_name'', Str ''oaks''),
            (''_description'', Undefined), (''_extras'', Ref 22)]) ''name''
       = Value (Str ''oaks'')"
    by code_simp
  show ?thesis by (intro conjI) (rule example_run a b c)+
qed

text \<open>
  An assignment to \<open>__proto__\<close> is the other way to change what the accessors return: it
  replaces the prototype that carries them. After \<open>s.__proto__ = null\<close> the Schema sees
  no accessor, and \<open>s.name\<close> is \<open>undefined\<close>. Names that are members of
  \<open>Object.prototype\<close> or \<open>constructor\<close> read as functions.
\<close>

lemma prototype_replacement_example:
  "set_member True example_store_after (new_schema_object example_this) ''__proto__'' Null
     = Inr \<lparr>own_props = example_this, proto = Replaced Null\<rparr>
   \<and> get_member example_store_after \<lparr>own_props = example_this, proto = Replaced Null\<rparr> ''name''
       = Value Undefined
   \<and> get_member example_store_after (new_schema_object example_this) ''constructor''
       = Function ''MetadataSchema''
   \<and> get_member example_store_after (new_schema_object example_this) ''toString''
       = Function ''toString''
   \<and> get_member example_store_after (new_schema_object example_this) ''__proto__''
       = Schema_prototype_object"
  by code_simp

text \<open>
  C7. The construction from an object with no property, own or inherited, returns a Schema
  whose \<open>classes\<close> and \<open>enums\<close> are objects without properties and whose \<open>name\<close>,
  \<open>description\<close> and \<open>extras\<close> are \<open>undefined\<close>, whatever the constructors are.
\<close>

theorem MetadataSchema_empty_object:
  assumes "lookup h a = Some (Obj [] [])"
  shows "\<exists>this h'. MetadataSchema MetadataEnum MetadataClass stack h (Ref a) = Inr (this, h')
     \<and> (\<exists>c. classes this = Ref c \<and> lookup h' c = Some (Obj [] []))
     \<and> (\<exists>e. enums this = Ref e \<and> lookup h' e = Some (Obj [] []))
     \<and> name this = Undefined \<and> description this = Undefined \<and> extras this = Undefined"
proof -
  from assms have a: "a < length h" "h ! a = Obj [] []"
    by (auto simp: lookup_def split: if_splits)
  have g: "get_prop (h @ cs) (Ref a) k = Inr Undefined" for cs k
    using a by (simp add: get_prop_def lookup_def nth_append)
  have f: "for_in_keys hh Undefined = []" for hh
    by (simp add: for_in_keys_def own_keys_def inherited_keys_def)
  have "MetadataSchema MetadataEnum MetadataClass stack h (Ref a)
      = Inr ([(''_classes'', Ref (Suc (length h))), (''_enums'', Ref (length h)), (''_name'', Undefined),
              (''_description'', Undefined), (''_extras'', Undefined)], h @ [Obj [] [], Obj [] []])"
    using g [of "[Obj [] []]"] g [of "[Obj [] [], Obj [] []]"]
    by (simp add: MetadataSchema_def MetadataSchema_body_def Check_typeOf_object_def alloc_def f)
  then show ?thesis
    by (simp add: accessor_values lookup_def nth_append)
qed

theorem MetadataSchema_empty_object_witness:
  "lookup [Obj [] []] 0 = Some (Obj [] [])
   \<and> (\<exists>this h'. MetadataSchema example_MetadataEnum example_MetadataClass 0 [Obj [] []] (Ref 0) = Inr (this, h')
     \<and> (\<exists>c. classes this = Ref c \<and> lookup h' c = Some (Obj [] []))
     \<and> (\<exists>e. enums this = Ref e \<and> lookup h' e = Some (Obj [] []))
     \<and> name this = Undefined \<and> description this = Undefined \<and> extras this = Undefined)"
proof -
  have l: "lookup [Obj [] []] 0 = Some (Obj [] [])" by (simp add: lookup_def)
  from l MetadataSchema_empty_object [OF l, of example_MetadataEnum example_MetadataClass 0]
  show ?thesis by blast
qed

text \<open>
  C8. Two plain objects of a closed store with the same shape, constructed one after the
  other, yield Schemas whose class tables have the same property names, whose enum tables
  have the same property names and whose extras have the same shape, while no instance of
  one Schema is an instance of the other.
\<close>

theorem two_constructions_agree:
  assumes "closed_store h" "plain_object h v1" "plain_object h v2" "same_shape h v1 v2"
    and "MetadataSchema MetadataEnum MetadataClass stack h v1 = Inr (this1, hA)"
    and "MetadataSchema MetadataEnum MetadataClass stack hA v2 = Inr (this2, hB)"
  shows "set (own_keys hB (classes this1)) = set (own_keys hB (classes this2))
     \<and> set (own_keys hB (enums this1)) = set (own_keys hB (enums this2))
     \<and> same_shape hB (extras this1) (extras this2)
     \<and> set (instances hB this1) \<inter> set (instances hB this2) = {}"
proof -
  have i1: "in_store h v1" and i2: "in_store h v2"
    using assms(2,3)
    by (auto simp: plain_object_def in_store_def lookup_def split: jsval.splits option.splits if_splits)
  have kA: "keeps h hA"
  proof -
    from assms(1) keeps_refl i1 assms(5) obtain se sc x :: jsval and h2 h4 where
      "enums this1 = Ref (length h)" "classes this1 = Ref (length h2)"
      "length h < length h2" "length h2 < length h4"
      "keeps h h2" "keeps h2 h4" "keeps h4 hA"
      by (rule MetadataSchema_run)
    then show ?thesis using keeps_trans by blast
  qed
  have kB: "keeps hA hB"
  proof -
    from assms(1) kA i2 assms(6) obtain se sc x :: jsval and h2 h4 where
      "enums this2 = Ref (length hA)" "classes this2 = Ref (length h2)"
      "length hA < length h2" "length h2 < length h4"
      "keeps hA h2" "keeps h2 h4" "keeps h4 hB"
      by (rule MetadataSchema_run)
    then show ?thesis using keeps_trans by blast
  qed
  from run_later_store [OF assms(1) keeps_refl i1 assms(5) kB]
  obtain se1 sc1 x1 where a:
    "get_prop h v1 ''enums'' = Inr se1" "get_prop h v1 ''classes'' = Inr sc1"
    "get_prop h v1 ''extras'' = Inr x1"
    "set (own_keys hB (enums this1)) = set (own_keys h se1) - {''__proto__''}"
    "set (own_keys hB (classes this1)) = set (own_keys h sc1) - {''__proto__''}"
    "\<forall>v \<in> set (instances hB this1). \<exists>i. v = Ref i \<and> length h < i \<and> i < length hA"
    "\<forall>d. observe d hB (extras this1) = observe d h x1"
    by blast
  from run_later_store [OF assms(1) kA i2 assms(6) keeps_refl]
  obtain se2 sc2 x2 where b:
    "get_prop h v2 ''enums'' = Inr se2" "get_prop h v2 ''classes'' = Inr sc2"
    "get_prop h v2 ''extras'' = Inr x2"
    "set (own_keys hB (enums this2)) = set (own_keys h se2) - {''__proto__''}"
    "set (own_keys hB (classes this2)) = set (own_keys h sc2) - {''__proto__''}"
    "\<forall>v \<in> set (instances hB this2). \<exists>i. v = Ref i \<and> length hA < i \<and> i < length hB"
    "\<forall>d. observe d hB (extras this2) = observe d h x2"
    by blast
  note sh = same_shape_get_prop [OF assms(2,3,4)]
  have "own_keys h se1 = own_keys h se2" using sh [OF a(1) b(1)] by (rule same_shape_own_keys)
  with a(4) b(4) have E: "set (own_keys hB (enums this1)) = set (own_keys hB (enums this2))" by simp
  have "own_keys h sc1 = own_keys h sc2" using sh [OF a(2) b(2)] by (rule same_shape_own_keys)
  with a(5) b(5) have C: "set (own_keys hB (classes this1)) = set (own_keys hB (classes this2))" by simp
  have X: "same_shape hB (extras this1) (extras this2)"
    using sh [OF a(3) b(3)] a(7) b(7) by (simp add: same_shape_def)
  have D: "set (instances hB this1) \<inter> set (instances hB this2) = {}"
  proof (rule ccontr)
    assume "set (instances hB this1) \<inter> set (instances hB this2) \<noteq> {}"
    then obtain v where v: "v \<in> set (instances hB this1)" "v \<in> set (instances hB this2)" by blast
    from a(6) v(1) obtain i where "v = Ref i" "i < length hA" by blast
    moreover from b(6) v(2) obtain j where "v = Ref j" "length hA < j" by blast
    ultimately show False by simp
  qed
  from C E X D show ?thesis by blast
qed

theorem two_constructions_agree_witness:
  "closed_store example_store \<and> plain_object example_store (Ref 0) \<and> plain_object example_store (Ref 7)
   \<and> same_shape example_store (Ref 0) (Ref 7)
   \<and> MetadataSchema example_MetadataEnum example_MetadataClass 3 example_store (Ref 0)
       = Inr (example_this, example_store_after)
   \<and> MetadataSchema example_MetadataEnum example_MetadataClass 3 example_store_after (Ref 7)
       = Inr (example_this2, example_store_after2)
   \<and> set (own_keys example_store_after2 (classes example_this))
       = set (own_keys example_store_after2 (classes example_this2))
   \<and> set (own_keys example_store_after2 (enums example_this))
       = set (own_keys example_store_after2 (enums example_this2))
   \<and> same_shape example_store_after2 (extras example_this) (extras example_this2)
   \<and> set (instances example_store_after2 example_this) = {Ref 18, Ref 20}
   \<and> set (instances example_store_after2 example_this2) = {Ref 24, Ref 26}
   \<and> set (instances example_store_after2 example_this)
       \<inter> set (instances example_store_after2 example_this2) = {}"
proof -
  have p1: "plain_object example_store (Ref 0)" by code_simp
  have p2: "plain_object example_store (Ref 7)" by code_simp
  have i1: "set (instances example_store_after2 example_this) = {Ref 18, Ref 20}" by code_simp
  have i2: "set (instances example_store_after2 example_this2) = {Ref 24, Ref 26}" by code_simp
  from two_constructions_agree [OF example_closed p1 p2 example_same_shape example_run example_run2]
    example_closed p1 p2 example_same_shape example_run example_run2 i1 i2
  show ?thesis by blast
qed

text \<open>
  C9. A name that the input's \<open>enums\<close> (or \<open>classes\<close>) mapping sees only through its
  prototype chain is visited by the \<open>for ... in\<close> loop and gets no entry in the Schema's
  table.
\<close>

theorem inherited_keys_make_no_entry:
  assumes "closed_store h" "in_store h schema"
    and "MetadataSchema MetadataEnum MetadataClass stack h schema = Inr (this, h')"
  shows "(get_prop h schema ''enums'' = Inr m \<and> k \<in> set (inherited_keys h m) \<and> k \<notin> set (own_keys h m)
            \<longrightarrow> k \<in> set (for_in_keys h m) \<and> k \<notin> set (own_keys h' (enums this)))
       \<and> (get_prop h schema ''classes'' = Inr m \<and> k \<in> set (inherited_keys h m) \<and> k \<notin> set (own_keys h m)
            \<longrightarrow> k \<in> set (for_in_keys h m) \<and> k \<notin> set (own_keys h' (classes this)))"
proof -
  from schema_tables_keys [OF assms]
  obtain sc se where r: "get_prop h schema ''classes'' = Inr sc" "get_prop h schema ''enums'' = Inr se"
    "set (own_keys h' (classes this)) = set (own_keys h sc) - {''__proto__''}"
    "set (own_keys h' (enums this)) = set (own_keys h se) - {''__proto__''}"
    by blast
  have SC: "set (own_keys h' (classes this)) \<subseteq> set (own_keys h sc)"
    unfolding r(3) by (rule Diff_subset)
  have SE: "set (own_keys h' (enums this)) \<subseteq> set (own_keys h se)"
    unfolding r(4) by (rule Diff_subset)
  have F: "k \<in> set (for_in_keys h m)" if "k \<in> set (inherited_keys h m)" "k \<notin> set (own_keys h m)"
    using that by (simp add: for_in_keys_def)
  have E: "k \<notin> set (own_keys h' (enums this))"
    if "get_prop h schema ''enums'' = Inr m" "k \<notin> set (own_keys h m)"
  proof -
    from that(1) r(2) have "m = se" by simp
    with that(2) SE show ?thesis by blast
  qed
  have C: "k \<notin> set (own_keys h' (classes this))"
    if "get_prop h schema ''classes'' = Inr m" "k \<notin> set (own_keys h m)"
  proof -
    from that(1) r(1) have "m = sc" by simp
    with that(2) SC show ?thesis by blast
  qed
  from F E C show ?thesis by blast
qed

theorem inherited_keys_make_no_entry_witness:
  "closed_store example_store \<and> in_store example_store (Ref 0)
   \<and> MetadataSchema example_MetadataEnum example_MetadataClass 3 example_store (Ref 0)
       = Inr (example_this, example_store_after)
   \<and> get_prop example_store (Ref 0) ''enums'' = Inr (Ref 1)
   \<and> ''legacy'' \<in> set (inherited_keys example_store (Ref 1))
   \<and> ''legacy'' \<notin> set (own_keys example_store (Ref 1))
   \<and> ''legacy'' \<in> set (for_in_keys example_store (Ref 1))
   \<and> ''legacy'' \<notin> set (own_keys example_store_after (enums example_this))"
proof -
  have i: "in_store example_store (Ref 0)" by code_simp
  have g: "get_prop example_store (Ref 0) ''enums'' = Inr (Ref 1)" by code_simp
  have a: "''legacy'' \<in> set (inherited_keys example_store (Ref 1))" by code_simp
  have b: "''legacy'' \<notin> set (own_keys example_store (Ref 1))" by code_simp
  from inherited_keys_make_no_entry [OF example_closed i example_run, of "Ref 1" "''legacy''"] g a b
  have "''legacy'' \<in> set (for_in_keys example_store (Ref 1))
     \<and> ''legacy'' \<notin> set (own_keys example_store_after (enums example_this))" by blast
  with example_closed i example_run g a b show ?thesis by blast
qed

section \<open>Results for Atmosphere\<close>

text \<open>
  C10. Whatever \<open>this\<close> held before, a newly constructed Atmosphere has lightIntensity 10,
  rayleighScaleHeight 10000, mieScaleHeight 3200, mieAnisotropy 0.9, the three colour shifts
  0, dynamicLighting NONE, showGroundAtmosphere true, lightingFadeRange
  \<open>Cartesian2(1.0e7, 2.0e7)\<close> and nightFadeRange \<open>Cartesian2(1.0e7, 5.0e7)\<close>.
\<close>

theorem Atmosphere_defaults:
  "lightIntensity (Atmosphere this) = 10
   \<and> rayleighScaleHeight (Atmosphere this) = 10000
   \<and> mieScaleHeight (Atmosphere this) = 3200
   \<and> mieAnisotropy (Atmosphere this) = 9 / 10
   \<and> hueShift (Atmosphere this) = 0
   \<and> saturationShift (Atmosphere this) = 0
   \<and> brightnessShift (Atmosphere this) = 0
   \<and> dynamicLighting (Atmosphere this) = NONE
   \<and> showGroundAtmosphere (Atmosphere this) = True
   \<and> lightingFadeRange (Atmosphere this) = Cartesian2 10000000 20000000
   \<and> nightFadeRange (Atmosphere this) = Cartesian2 10000000 50000000"
  by (simp add: Atmosphere_def)

end
